theory Spec2Isabelle
  imports Complex_Main "HOL-Library.Word"
begin

unbundle bit_operations_syntax

section \<open>JavaScript values used by the audio code\<close>

text \<open>
  A JavaScript number is an IEEE double. The codec divides 16-bit integers by the power
  of two 32768, and multiplies samples taken from a \<open>Float32Array\<close> (24 significant
  bits), clamped to \<open>[-1, 1]\<close>, by 32768 or by 32767 (15 bits): every result has fewer
  than 53 significant bits, so the double arithmetic of the source is exact on these
  values and is modelled by arithmetic on \<open>real\<close>. The one non-numeric value that the
  codec can meet, \<open>NaN\<close> (the result of arithmetic on \<open>undefined\<close>, which a read past
  the end of a typed array returns), is a constructor of its own. Clock readings,
  offsets, rates and volumes of the playback transport are reals as well; there the
  rounding of the double arithmetic is not modelled.
\<close>

datatype number = Num real | NaN

type_synonym byte = "8 word"
type_synonym int16 = "16 word"

text \<open>The exceptions that the typed-array, DataView and Web Audio calls of the source throw.\<close>

datatype error = RangeError | NotSupportedError

definition bind_err :: "error + 'a \<Rightarrow> ('a \<Rightarrow> error + 'b) \<Rightarrow> error + 'b" where
  "bind_err r f = (case r of Inl e \<Rightarrow> Inl e | Inr v \<Rightarrow> f v)"

text \<open>\<open>Math.min\<close>, \<open>Math.max\<close>, \<open><\<close> and \<open>*\<close> on numbers: \<open>NaN\<close> propagates and
  compares false.\<close>

fun Math_min :: "number \<Rightarrow> number \<Rightarrow> number" where
  "Math_min (Num a) (Num b) = Num (min a b)"
| "Math_min _ _ = NaN"

fun Math_max :: "number \<Rightarrow> number \<Rightarrow> number" where
  "Math_max (Num a) (Num b) = Num (max a b)"
| "Math_max _ _ = NaN"

fun js_less :: "number \<Rightarrow> number \<Rightarrow> bool" where
  "js_less (Num a) (Num b) = (a < b)"
| "js_less _ _ = False"

fun js_times :: "number \<Rightarrow> number \<Rightarrow> number" where
  "js_times (Num a) (Num b) = Num (a * b)"
| "js_times _ _ = NaN"

fun js_divide :: "number \<Rightarrow> real \<Rightarrow> number" where
  "js_divide (Num a) d = Num (a / d)"
| "js_divide NaN d = NaN"

text \<open>ECMAScript \<open>ToInt16\<close>: \<open>NaN\<close> becomes 0, any other number is truncated towards zero
  and reduced modulo \<open>2^16\<close> (the reduction is the one of \<open>word_of_int\<close>).\<close>

definition js_trunc :: "real \<Rightarrow> int" where
  "js_trunc x = (if x < 0 then \<lceil>x\<rceil> else \<lfloor>x\<rfloor>)"

fun ToInt16 :: "number \<Rightarrow> int16" where
  "ToInt16 NaN = 0"
| "ToInt16 (Num x) = word_of_int (js_trunc x)"

section \<open>Typed arrays\<close>

text \<open>A read past the end of a typed array gives \<open>undefined\<close>, which arithmetic turns into
  \<open>NaN\<close>; a write past the end is ignored.\<close>

definition float_get :: "number list \<Rightarrow> nat \<Rightarrow> number" where
  "float_get xs i = (if i < length xs then xs ! i else NaN)"

definition float_set :: "number list \<Rightarrow> nat \<Rightarrow> number \<Rightarrow> number list" where
  "float_set xs i v = (if i < length xs then xs[i := v] else xs)"

definition int16_get :: "int16 list \<Rightarrow> nat \<Rightarrow> number" where
  "int16_get xs i = (if i < length xs then Num (real_of_int (sint (xs ! i))) else NaN)"

text \<open>An \<open>Int16Array\<close> view of a byte buffer, in the little-endian byte order of the
  platforms the application runs on. The constructor throws a \<open>RangeError\<close> when the
  byte length of the buffer is odd.\<close>

definition int16_of_bytes :: "byte \<Rightarrow> byte \<Rightarrow> int16" where
  "int16_of_bytes lo hi = push_bit 8 (ucast hi) OR ucast lo"

fun int16_pairs :: "byte list \<Rightarrow> int16 list" where
  "int16_pairs (lo # hi # rest) = int16_of_bytes lo hi # int16_pairs rest"
| "int16_pairs _ = []"

definition Int16Array :: "byte list \<Rightarrow> error + int16 list" where
  "Int16Array buf = (if odd (length buf) then Inl RangeError else Inr (int16_pairs buf))"

section \<open>Audio buffers and the audio context\<close>

text \<open>The \<open>AudioBuffer\<close> of the Web Audio API: a sample rate (an integer number of Hz, as
  in the data model of the specification), a length in frames (the property \<open>length\<close>,
  here \<open>buf_length\<close>) and one \<open>Float32Array\<close> per channel. The number of channels is
  the number of these arrays. \<open>getChannelData\<close> throws for an index that is not below
  the number of channels; every call in the source has an index below it, so the
  function is modelled on these indices only. A buffer is well formed when it has at
  least one channel and every channel has \<open>length\<close> samples, as every buffer made by the
  Web Audio API has.\<close>

record AudioBuffer =
  sampleRate :: nat
  buf_length :: nat
  channelData :: "number list list"

definition numberOfChannels :: "AudioBuffer \<Rightarrow> nat" where
  "numberOfChannels b = length (channelData b)"

definition duration :: "AudioBuffer \<Rightarrow> real" where
  "duration b = real (buf_length b) / real (sampleRate b)"

definition getChannelData :: "AudioBuffer \<Rightarrow> nat \<Rightarrow> number list" where
  "getChannelData b c = channelData b ! c"

definition well_formed :: "AudioBuffer \<Rightarrow> bool" where
  "well_formed b \<longleftrightarrow>
     1 \<le> numberOfChannels b \<and> list_all (\<lambda>ch. length ch = buf_length b) (channelData b)"

text \<open>The audio context is an argument of the decoder. What its \<open>createBuffer\<close>
  accepts depends on the browser, so the limits are fields of the context; every
  browser accepts at least 32 channels and the rates from 8000 to 96000 Hz, which are
  the limits of \<open>browser_context\<close>. \<open>createBuffer\<close> converts its length argument to
  an unsigned integer by truncation and throws \<open>NotSupportedError\<close> when an argument
  is zero or outside the limits; the buffer it returns is silent.\<close>

record AudioContext =
  maxChannels :: nat
  minRate :: nat
  maxRate :: nat

definition browser_context :: AudioContext where
  "browser_context = \<lparr>maxChannels = 32, minRate = 8000, maxRate = 96000\<rparr>"

definition createBuffer :: "AudioContext \<Rightarrow> nat \<Rightarrow> real \<Rightarrow> nat \<Rightarrow> error + AudioBuffer" where
  "createBuffer ctx numChannels len rate =
     (if numChannels = 0 \<or> maxChannels ctx < numChannels \<or> nat \<lfloor>len\<rfloor> = 0
         \<or> rate < minRate ctx \<or> maxRate ctx < rate
      then Inl NotSupportedError
      else Inr \<lparr>sampleRate = rate, buf_length = nat \<lfloor>len\<rfloor>,
                channelData = replicate numChannels (replicate (nat \<lfloor>len\<rfloor>) (Num 0))\<rparr>)"

section \<open>The PCM decoder\<close>

text \<open>The inner loop of \<open>decodeAudioData\<close>, over the frame indices \<open>i\<close> with
  \<open>i < frameCount\<close>, for one channel.\<close>

fun fill_channel :: "int16 list \<Rightarrow> nat \<Rightarrow> nat \<Rightarrow> number list \<Rightarrow> nat list \<Rightarrow> number list" where
  "fill_channel dataInt16 numChannels channel cd [] = cd"
| "fill_channel dataInt16 numChannels channel cd (i # is) =
     fill_channel dataInt16 numChannels channel
       (float_set cd i (js_divide (int16_get dataInt16 (i * numChannels + channel)) 32768)) is"

text \<open>The outer loop, over the channels.\<close>

fun fill_channels :: "int16 list \<Rightarrow> nat \<Rightarrow> nat list \<Rightarrow> AudioBuffer \<Rightarrow> nat list \<Rightarrow> AudioBuffer" where
  "fill_channels dataInt16 numChannels frames buffer [] = buffer"
| "fill_channels dataInt16 numChannels frames buffer (channel # cs) =
     fill_channels dataInt16 numChannels frames
       (buffer\<lparr>channelData := (channelData buffer)
          [channel := fill_channel dataInt16 numChannels channel
                        (getChannelData buffer channel) frames]\<rparr>) cs"

text \<open>\<open>frameCount\<close> is the quotient of two numbers and need not be an integer; the
  frame loop runs over the naturals below it. With no channels the quotient is
  \<open>Infinity\<close> or \<open>NaN\<close> in the source and 0 here, and \<open>createBuffer\<close> throws in both
  cases. The parameter \<open>sampleRate\<close> of the source is \<open>rate\<close> here.\<close>

definition decodeAudioData :: "byte list \<Rightarrow> AudioContext \<Rightarrow> nat \<Rightarrow> nat \<Rightarrow> error + AudioBuffer" where
  "decodeAudioData data ctx rate numChannels =
     bind_err (Int16Array data) (\<lambda>dataInt16.
       let frameCount = real (length dataInt16) / real numChannels in
       bind_err (createBuffer ctx numChannels frameCount rate) (\<lambda>buffer.
         Inr (fill_channels dataInt16 numChannels [0..<nat \<lceil>frameCount\<rceil>] buffer
                [0..<numChannels])))"

text \<open>In the words of the specification: the sample number \<open>k\<close> of a byte sequence is
  the little-endian signed 16-bit integer at the bytes \<open>2 * k\<close> and \<open>2 * k + 1\<close>, divided
  by 32768. A context accepts a channel count and a rate that lie within its limits.\<close>

definition pcm_sample :: "byte list \<Rightarrow> nat \<Rightarrow> real" where
  "pcm_sample bs k =
     real_of_int (sint (int16_of_bytes (bs ! (2 * k)) (bs ! (2 * k + 1)))) / 32768"

definition accepts :: "AudioContext \<Rightarrow> nat \<Rightarrow> nat \<Rightarrow> bool" where
  "accepts ctx numChannels rate \<longleftrightarrow>
     1 \<le> numChannels \<and> numChannels \<le> maxChannels ctx \<and>
     minRate ctx \<le> rate \<and> rate \<le> maxRate ctx"

section \<open>The container encoders\<close>

text \<open>A \<open>DataView\<close> over an \<open>ArrayBuffer\<close> is a byte list. Every setter checks that the
  bytes it writes lie inside the view and throws a \<open>RangeError\<close> otherwise; the integer
  setters reduce their argument modulo the width of the field (\<open>ToUint8\<close>, \<open>ToUint16\<close>,
  \<open>ToUint32\<close>, \<open>ToInt16\<close>).\<close>

definition SetViewValue :: "byte list \<Rightarrow> nat \<Rightarrow> byte list \<Rightarrow> error + byte list" where
  "SetViewValue view off bs =
     (if off + length bs \<le> length view
      then Inr (take off view @ bs @ drop (off + length bs) view)
      else Inl RangeError)"

definition bytes16 :: "16 word \<Rightarrow> bool \<Rightarrow> byte list" where
  "bytes16 w littleEndian =
     (let be = [ucast (drop_bit 8 w), ucast w] in if littleEndian then rev be else be)"

definition bytes32 :: "32 word \<Rightarrow> bool \<Rightarrow> byte list" where
  "bytes32 w littleEndian =
     (let be = [ucast (drop_bit 24 w), ucast (drop_bit 16 w), ucast (drop_bit 8 w), ucast w]
      in if littleEndian then rev be else be)"

definition setUint8 :: "byte list \<Rightarrow> nat \<Rightarrow> nat \<Rightarrow> error + byte list" where
  "setUint8 view off v = SetViewValue view off [of_nat v]"

definition setUint16 :: "byte list \<Rightarrow> nat \<Rightarrow> nat \<Rightarrow> bool \<Rightarrow> error + byte list" where
  "setUint16 view off v littleEndian = SetViewValue view off (bytes16 (of_nat v) littleEndian)"

definition setUint32 :: "byte list \<Rightarrow> nat \<Rightarrow> nat \<Rightarrow> bool \<Rightarrow> error + byte list" where
  "setUint32 view off v littleEndian = SetViewValue view off (bytes32 (of_nat v) littleEndian)"

definition setInt16 :: "byte list \<Rightarrow> nat \<Rightarrow> number \<Rightarrow> bool \<Rightarrow> error + byte list" where
  "setInt16 view off v littleEndian = SetViewValue view off (bytes16 (ToInt16 v) littleEndian)"

record Blob =
  blob_parts :: "byte list"
  blob_type :: string

text \<open>The helper \<open>writeString\<close>: one \<open>setUint8\<close> per character code.\<close>

fun writeString :: "byte list \<Rightarrow> nat \<Rightarrow> string \<Rightarrow> error + byte list" where
  "writeString view off [] = Inr view"
| "writeString view off (c # str) =
     bind_err (setUint8 view off (of_char c)) (\<lambda>view. writeString view (off + 1) str)"

text \<open>The helper \<open>floatTo16BitPCM\<close>: the samples of one channel, two bytes each.\<close>

fun floatTo16BitPCM :: "byte list \<Rightarrow> nat \<Rightarrow> number list \<Rightarrow> error + byte list" where
  "floatTo16BitPCM output off [] = Inr output"
| "floatTo16BitPCM output off (x # input) =
     (let s = Math_max (Num (- 1)) (Math_min (Num 1) x) in
      bind_err (setInt16 output off
                 (if js_less s (Num 0) then js_times s (Num 32768) else js_times s (Num 32767))
                 True)
        (\<lambda>output. floatTo16BitPCM output (off + 2) input))"

text \<open>The interleaving loops: the inner one over the channels \<open>j\<close> of frame \<open>i\<close>, the outer
  one over the frames. Both carry the view and the running \<open>offset\<close>.\<close>

fun interleave_frame ::
  "byte list \<Rightarrow> nat \<Rightarrow> number list list \<Rightarrow> nat \<Rightarrow> nat list \<Rightarrow> error + byte list \<times> nat" where
  "interleave_frame view off channels i [] = Inr (view, off)"
| "interleave_frame view off channels i (j # js) =
     (let s = Math_max (Num (- 1)) (Math_min (Num 1) (float_get (channels ! j) i)) in
      bind_err (setInt16 view off
                 (if js_less s (Num 0) then js_times s (Num 32768) else js_times s (Num 32767))
                 True)
        (\<lambda>view. interleave_frame view (off + 2) channels i js))"

fun interleave_frames ::
  "byte list \<Rightarrow> nat \<Rightarrow> number list list \<Rightarrow> nat \<Rightarrow> nat list \<Rightarrow> error + byte list \<times> nat" where
  "interleave_frames view off channels numOfChan [] = Inr (view, off)"
| "interleave_frames view off channels numOfChan (i # is) =
     bind_err (interleave_frame view off channels i [0..<numOfChan])
       (\<lambda>(view, off). interleave_frames view off channels numOfChan is)"

text \<open>\<open>audioBufferToWav\<close>: the 44-byte header, then the payload; a single channel goes
  through \<open>floatTo16BitPCM\<close>, several channels through the interleaving loops. The
  variables \<open>sampleRate\<close> and \<open>length\<close> of the source are \<open>rate\<close> and \<open>len\<close> here.\<close>

definition audioBufferToWav :: "AudioBuffer \<Rightarrow> error + Blob" where
  "audioBufferToWav buffer =
     (let numOfChan = numberOfChannels buffer;
          rate = sampleRate buffer;
          format = 1;
          bitDepth = 16;
          len = buf_length buffer * numOfChan * (bitDepth div 8);
          view = replicate (44 + len) 0
      in
      bind_err (writeString view 0 ''RIFF'') (\<lambda>view.
      bind_err (setUint32 view 4 (36 + len) True) (\<lambda>view.
      bind_err (writeString view 8 ''WAVE'') (\<lambda>view.
      bind_err (writeString view 12 ''fmt '') (\<lambda>view.
      bind_err (setUint32 view 16 16 True) (\<lambda>view.
      bind_err (setUint16 view 20 format True) (\<lambda>view.
      bind_err (setUint16 view 22 numOfChan True) (\<lambda>view.
      bind_err (setUint32 view 24 rate True) (\<lambda>view.
      bind_err (setUint32 view 28 (rate * numOfChan * (bitDepth div 8)) True) (\<lambda>view.
      bind_err (setUint16 view 32 (numOfChan * (bitDepth div 8)) True) (\<lambda>view.
      bind_err (setUint16 view 34 bitDepth True) (\<lambda>view.
      bind_err (writeString view 36 ''data'') (\<lambda>view.
      bind_err (setUint32 view 40 len True) (\<lambda>view.
      bind_err
        (if numOfChan = 1 then floatTo16BitPCM view 44 (getChannelData buffer 0)
         else
           (let channels = map (getChannelData buffer) [0..<numOfChan] in
            bind_err (interleave_frames view 44 channels numOfChan [0..<buf_length buffer])
              (\<lambda>(view, off). Inr view)))
        (\<lambda>view. Inr \<lparr>blob_parts = view, blob_type = ''audio/wav''\<rparr>)))))))))))))))"

text \<open>\<open>audioBufferToMp3\<close>: the same header statements, then the interleaving loops for
  any number of channels; the blob is labelled \<open>audio/mpeg\<close>.\<close>

definition audioBufferToMp3 :: "AudioBuffer \<Rightarrow> error + Blob" where
  "audioBufferToMp3 buffer =
     (let numOfChan = numberOfChannels buffer;
          rate = sampleRate buffer;
          format = 1;
          bitDepth = 16;
          len = buf_length buffer * numOfChan * (bitDepth div 8);
          view = replicate (44 + len) 0
      in
      bind_err (writeString view 0 ''RIFF'') (\<lambda>view.
      bind_err (setUint32 view 4 (36 + len) True) (\<lambda>view.
      bind_err (writeString view 8 ''WAVE'') (\<lambda>view.
      bind_err (writeString view 12 ''fmt '') (\<lambda>view.
      bind_err (setUint32 view 16 16 True) (\<lambda>view.
      bind_err (setUint16 view 20 format True) (\<lambda>view.
      bind_err (setUint16 view 22 numOfChan True) (\<lambda>view.
      bind_err (setUint32 view 24 rate True) (\<lambda>view.
      bind_err (setUint32 view 28 (rate * numOfChan * (bitDepth div 8)) True) (\<lambda>view.
      bind_err (setUint16 view 32 (numOfChan * (bitDepth div 8)) True) (\<lambda>view.
      bind_err (setUint16 view 34 bitDepth True) (\<lambda>view.
      bind_err (writeString view 36 ''data'') (\<lambda>view.
      bind_err (setUint32 view 40 len True) (\<lambda>view.
      (let channels = map (getChannelData buffer) [0..<numOfChan] in
       bind_err (interleave_frames view 44 channels numOfChan [0..<buf_length buffer])
         (\<lambda>(view, off). Inr \<lparr>blob_parts = view, blob_type = ''audio/mpeg''\<rparr>))))))))))))))))"

subsection \<open>The container in the words of the specification\<close>

text \<open>The definitions of this subsection do not come from the source: they say what the
  specification expects in the container, and the encoders are compared with them.
  The fixed-point value of a sample: clamp to \<open>[-1, 1]\<close>, scale a negative value by
  32768 and any other by 32767, drop the fraction. \<open>NaN\<close> is written as 0.\<close>

definition clamp_sample :: "real \<Rightarrow> real" where
  "clamp_sample x = max (- 1) (min 1 x)"

definition quantize :: "real \<Rightarrow> int" where
  "quantize x =
     js_trunc (if clamp_sample x < 0 then clamp_sample x * 32768 else clamp_sample x * 32767)"

fun pcm16 :: "number \<Rightarrow> int16" where
  "pcm16 NaN = 0"
| "pcm16 (Num x) = word_of_int (quantize x)"

definition ascii :: "string \<Rightarrow> byte list" where
  "ascii str = map (\<lambda>c. of_nat (of_char c)) str"

definition u16le :: "nat \<Rightarrow> byte list" where
  "u16le n = [of_nat n, of_nat (n div 256)]"

definition u32le :: "nat \<Rightarrow> byte list" where
  "u32le n = [of_nat n, of_nat (n div 256), of_nat (n div 65536), of_nat (n div 16777216)]"

definition i16le :: "int16 \<Rightarrow> byte list" where
  "i16le w = [of_int (sint w), of_int (sint w div 256)]"

text \<open>The value of a little-endian unsigned field.\<close>

fun le_value :: "byte list \<Rightarrow> nat" where
  "le_value [] = 0"
| "le_value (b # bs) = unat b + 256 * le_value bs"

definition wav_header :: "nat \<Rightarrow> nat \<Rightarrow> nat \<Rightarrow> byte list" where
  "wav_header numOfChan rate len =
     ascii ''RIFF'' @ u32le (36 + len) @ ascii ''WAVE'' @
     ascii ''fmt '' @ u32le 16 @ u16le 1 @ u16le numOfChan @ u32le rate @
     u32le (rate * numOfChan * 2) @ u16le (numOfChan * 2) @ u16le 16 @
     ascii ''data'' @ u32le len"

definition frame_bytes :: "AudioBuffer \<Rightarrow> nat \<Rightarrow> byte list" where
  "frame_bytes b i =
     concat (map (\<lambda>j. i16le (pcm16 (channelData b ! j ! i))) [0..<numberOfChannels b])"

definition wav_payload :: "AudioBuffer \<Rightarrow> byte list" where
  "wav_payload b = concat (map (frame_bytes b) [0..<buf_length b])"

text \<open>The 16-bit words of the payload, in the order in which they are written.\<close>

definition pcm_words :: "AudioBuffer \<Rightarrow> int16 list" where
  "pcm_words b =
     concat (map (\<lambda>i. map (\<lambda>j. pcm16 (channelData b ! j ! i)) [0..<numberOfChannels b])
               [0..<buf_length b])"

section \<open>The playback transport\<close>

text \<open>
  The player component keeps its playback state in React state variables and in refs.
  The record below has one field per variable that the transport handlers read or
  write. An \<open>AudioBufferSourceNode\<close> is represented by what the handlers give it: the
  offset passed to \<open>start\<close>, the value of its \<open>playbackRate\<close> parameter, and its
  \<open>onended\<close> handler, a closure over the rate and the buffer with which \<open>play\<close> was
  called. The gain node is represented by the value of its gain, the pending
  animation-frame callback by a flag. The reading of the audio clock
  (\<open>audioContextRef.current.currentTime\<close>) is an argument \<open>now\<close> of every handler that
  consults it. A handler is modelled at the granularity of one event: it maps the state
  of the render in which it was created to the state after its updates are applied.
\<close>

datatype SourceNode = main | preview

record Closure =
  captured_rate :: real
  captured_duration :: real

record Source =
  start_offset :: real
  playbackRate_value :: real
  onended :: "Closure option"

record Player =
  audioBuffer :: "AudioBuffer option"
  isPlaying :: bool
  currentTime :: real
  durationState :: real
  volume :: real
  lastVolume :: real
  playbackRate :: real
  audioContextRef :: "AudioContext option"
  audioSourceRef :: "Source option"
  gainNodeRef :: "real option"
  previewAudioSourceRef :: "Source option"
  animationFrameRef :: bool
  playbackStartTimeRef :: real
  startOffsetRef :: real

text \<open>The initial values of \<open>useState\<close> and \<open>useRef\<close>.\<close>

definition initial :: Player where
  "initial = \<lparr>audioBuffer = None, isPlaying = False, currentTime = 0, durationState = 0,
     volume = 1, lastVolume = 1, playbackRate = 1, audioContextRef = None,
     audioSourceRef = None, gainNodeRef = None, previewAudioSourceRef = None,
     animationFrameRef = False, playbackStartTimeRef = 0, startOffsetRef = 0\<rparr>"

definition stopPlayback :: "SourceNode option \<Rightarrow> Player \<Rightarrow> Player" where
  "stopPlayback sourceNode s =
     (let s1 = (if sourceNode = Some main \<or> sourceNode = None
                then (case audioSourceRef s of
                        Some src \<Rightarrow> s\<lparr>audioSourceRef := None\<rparr>
                      | None \<Rightarrow> s)
                else s);
          s2 = (if sourceNode = Some preview \<or> sourceNode = None
                then (case previewAudioSourceRef s1 of
                        Some src \<Rightarrow> s1\<lparr>previewAudioSourceRef := None\<rparr>
                      | None \<Rightarrow> s1)
                else s1)
      in s2\<lparr>isPlaying := False, animationFrameRef := False\<rparr>)"

definition setupAudioContext :: "Player \<Rightarrow> Player" where
  "setupAudioContext s =
     (case audioContextRef s of
        None \<Rightarrow> s\<lparr>audioContextRef := Some browser_context, gainNodeRef := Some 1\<rparr>
      | Some ctx \<Rightarrow> s)"

text \<open>\<open>updateProgress\<close> is a closure over \<open>isPlaying\<close> and \<open>playbackRate\<close>; the values it
  captured are its first two arguments.\<close>

definition updateProgress :: "bool \<Rightarrow> real \<Rightarrow> real \<Rightarrow> Player \<Rightarrow> Player" where
  "updateProgress isPlaying' playbackRate' now s =
     (if isPlaying' \<and> audioContextRef s \<noteq> None
      then (let elapsedTime = (now - playbackStartTimeRef s) * playbackRate';
                newTime = startOffsetRef s + elapsedTime
            in s\<lparr>currentTime := newTime, animationFrameRef := True\<rparr>)
      else s)"

text \<open>\<open>play\<close> is a closure over \<open>audioBuffer\<close> and \<open>playbackRate\<close>; \<open>play_closure\<close> takes
  the captured values as arguments. The play button and the seek slider call the \<open>play\<close>
  of the current render, which is \<open>play\<close> below.\<close>

definition play_closure :: "AudioBuffer option \<Rightarrow> real \<Rightarrow> real \<Rightarrow> Player \<Rightarrow> Player" where
  "play_closure audioBuffer' playbackRate' now s =
     (case audioBuffer' of
        None \<Rightarrow> s
      | Some buf \<Rightarrow>
          if audioContextRef s = None \<or> gainNodeRef s = None then s
          else
            (let s1 = stopPlayback (Some main) s;
                 offset = (if startOffsetRef s1 \<ge> duration buf then 0 else startOffsetRef s1);
                 source = \<lparr>start_offset = offset, playbackRate_value = playbackRate',
                           onended = Some \<lparr>captured_rate = playbackRate',
                                            captured_duration = duration buf\<rparr>\<rparr>
             in s1\<lparr>audioSourceRef := Some source, playbackStartTimeRef := now,
                   isPlaying := True, animationFrameRef := True\<rparr>))"

definition play :: "real \<Rightarrow> Player \<Rightarrow> Player" where
  "play now s = play_closure (audioBuffer s) (playbackRate s) now s"

text \<open>The \<open>onended\<close> handler that \<open>play\<close> attaches, run when the current source signals
  that it has played to its end.\<close>

definition source_onended :: "real \<Rightarrow> Player \<Rightarrow> Player" where
  "source_onended now s =
     (case audioSourceRef s of
        None \<Rightarrow> s
      | Some src \<Rightarrow>
          (case onended src of
             None \<Rightarrow> s
           | Some cl \<Rightarrow>
               if audioContextRef s = None then s
               else
                 (let newOffset = startOffsetRef s
                        + (now - playbackStartTimeRef s) * captured_rate cl;
                      s1 = s\<lparr>startOffsetRef :=
                               (if newOffset \<ge> captured_duration cl - 1 / 100 then 0
                                else newOffset),
                             isPlaying := False, animationFrameRef := False\<rparr>
                  in if newOffset \<ge> captured_duration cl - 1 / 100
                     then s1\<lparr>currentTime := captured_duration cl\<rparr>
                     else s1)))"

definition pause :: "real \<Rightarrow> Player \<Rightarrow> Player" where
  "pause now s =
     (if audioContextRef s = None \<or> audioSourceRef s = None then s
      else
        (let elapsedTime = (now - playbackStartTimeRef s) * playbackRate s
         in stopPlayback (Some main) (s\<lparr>startOffsetRef := startOffsetRef s + elapsedTime\<rparr>)))"

definition handleTogglePlayPause :: "real \<Rightarrow> Player \<Rightarrow> Player" where
  "handleTogglePlayPause now s = (if isPlaying s then pause now s else play now s)"

text \<open>The effect that follows a change of \<open>volume\<close>.\<close>

definition volume_effect :: "Player \<Rightarrow> Player" where
  "volume_effect s =
     (if gainNodeRef s \<noteq> None \<and> audioContextRef s \<noteq> None
      then s\<lparr>gainNodeRef := Some (volume s)\<rparr> else s)"

definition handleToggleMute :: "Player \<Rightarrow> Player" where
  "handleToggleMute s =
     (if volume s > 0 then s\<lparr>lastVolume := volume s, volume := 0\<rparr>
      else s\<lparr>volume := (if lastVolume s > 0 then lastVolume s else 1)\<rparr>)"

definition handleVolumeChange :: "real \<Rightarrow> Player \<Rightarrow> Player" where
  "handleVolumeChange newVolume s =
     s\<lparr>volume := newVolume,
       lastVolume := (if newVolume > 0 then newVolume else lastVolume s)\<rparr>"

definition handleSpeedChange :: "real \<Rightarrow> Player \<Rightarrow> Player" where
  "handleSpeedChange newRate s =
     (let s1 = s\<lparr>playbackRate := newRate\<rparr>
      in case audioSourceRef s1 of
           None \<Rightarrow> s1
         | Some src \<Rightarrow>
             if audioContextRef s1 = None then s1
             else s1\<lparr>audioSourceRef := Some (src\<lparr>playbackRate_value := newRate\<rparr>)\<rparr>)"

definition handleSeek :: "real \<Rightarrow> real \<Rightarrow> Player \<Rightarrow> Player" where
  "handleSeek newTime now s =
     (let s1 = s\<lparr>currentTime := newTime, startOffsetRef := newTime\<rparr>
      in if isPlaying s then play now s1 else s1)"

text \<open>The effect that follows a change of the text or of the voice.\<close>

definition input_effect :: "Player \<Rightarrow> Player" where
  "input_effect s = (stopPlayback None s)\<lparr>audioBuffer := None, currentTime := 0, durationState := 0\<rparr>"

text \<open>A successful \<open>handleGenerateAudio\<close>, from the click to the end of the handler, with
  the decoded buffer as argument. The \<open>play\<close> that it calls last is the one of the render
  of the click.\<close>

definition handleGenerateAudio :: "AudioBuffer \<Rightarrow> real \<Rightarrow> Player \<Rightarrow> Player" where
  "handleGenerateAudio newAudioBuffer now s =
     (let s1 = setupAudioContext ((stopPlayback None s)\<lparr>audioBuffer := None\<rparr>);
          s2 = s1\<lparr>audioBuffer := Some newAudioBuffer, durationState := duration newAudioBuffer,
                  currentTime := 0, startOffsetRef := 0\<rparr>
      in play_closure (audioBuffer s) (playbackRate s) now s2)"

text \<open>A successful \<open>handlePreviewVoice\<close>.\<close>

definition handlePreviewVoice :: "Player \<Rightarrow> Player" where
  "handlePreviewVoice s =
     (let s1 = setupAudioContext (stopPlayback None s)
      in if audioContextRef s1 \<noteq> None \<and> gainNodeRef s1 \<noteq> None
         then s1\<lparr>previewAudioSourceRef :=
                    Some \<lparr>start_offset = 0, playbackRate_value = 1, onended = None\<rparr>\<rparr>
         else s1)"

text \<open>The events of the component and the states that they reach from the initial one.\<close>

datatype Event =
    TogglePlayPause real
  | SourceEnded real
  | ToggleMute
  | VolumeChange real
  | SpeedChange real
  | Seek real real
  | ProgressFrame bool real real
  | InputChange
  | GenerateAudio AudioBuffer real
  | PreviewVoice

fun dispatch :: "Event \<Rightarrow> Player \<Rightarrow> Player" where
  "dispatch (TogglePlayPause now) s = handleTogglePlayPause now s"
| "dispatch (SourceEnded now) s = source_onended now s"
| "dispatch ToggleMute s = volume_effect (handleToggleMute s)"
| "dispatch (VolumeChange v) s = volume_effect (handleVolumeChange v s)"
| "dispatch (SpeedChange r) s = handleSpeedChange r s"
| "dispatch (Seek t now) s = handleSeek t now s"
| "dispatch (ProgressFrame p r now) s = updateProgress p r now s"
| "dispatch InputChange s = input_effect s"
| "dispatch (GenerateAudio b now) s = handleGenerateAudio b now s"
| "dispatch PreviewVoice s = handlePreviewVoice s"

inductive reachable :: "Player \<Rightarrow> bool" where
  reachable_initial: "reachable initial"
| reachable_dispatch: "reachable s \<Longrightarrow> reachable (dispatch e s)"

code_pred reachable .

text \<open>Example values: a silent mono buffer of ten seconds and a player that holds this
  buffer and is ready to play it.\<close>

definition ten_seconds :: AudioBuffer where
  "ten_seconds = \<lparr>sampleRate = 24000, buf_length = 240000,
                   channelData = [replicate 240000 (Num 0)]\<rparr>"

text \<open>A mono buffer of two samples.\<close>

definition two_samples :: AudioBuffer where
  "two_samples = \<lparr>sampleRate = 24000, buf_length = 2, channelData = [[Num (- 1 / 2), Num 1]]\<rparr>"

definition ready_player :: Player where
  "ready_player = initial\<lparr>audioBuffer := Some ten_seconds, durationState := 10,
                          audioContextRef := Some browser_context, gainNodeRef := Some 1\<rparr>"

section \<open>Properties of the decoder\<close>


lemma length_fill_channel [simp]: "length (fill_channel d nc c cd is) = length cd"
  by (induction "is" arbitrary: cd) (simp_all add: float_set_def)

lemma nth_fill_channel:
  "k < length cd \<Longrightarrow>
   fill_channel d nc c cd is ! k =
     (if k \<in> set is then js_divide (int16_get d (k * nc + c)) 32768 else cd ! k)"
proof (induction "is" arbitrary: cd)
  case Nil
  then show ?case by simp
next
  case (Cons i "is")
  let ?cd = "float_set cd i (js_divide (int16_get d (i * nc + c)) 32768)"
  have len: "k < length ?cd" using Cons.prems by (simp add: float_set_def)
  show ?case
    using Cons.IH [OF len] Cons.prems
    by (auto simp: float_set_def nth_list_update)
qed

lemma fill_channels_fields [simp]:
  "sampleRate (fill_channels d nc fr b cs) = sampleRate b"
  "buf_length (fill_channels d nc fr b cs) = buf_length b"
  "length (channelData (fill_channels d nc fr b cs)) = length (channelData b)"
  by (induction cs arbitrary: b) simp_all

lemma nth_fill_channels:
  "distinct cs \<Longrightarrow> c < length (channelData b) \<Longrightarrow>
   channelData (fill_channels d nc fr b cs) ! c =
     (if c \<in> set cs then fill_channel d nc c (channelData b ! c) fr else channelData b ! c)"
proof (induction cs arbitrary: b)
  case Nil
  then show ?case by simp
next
  case (Cons a cs)
  let ?b = "b\<lparr>channelData := (channelData b)
          [a := fill_channel d nc a (getChannelData b a) fr]\<rparr>"
  have "distinct cs" using Cons.prems by simp
  moreover have "c < length (channelData ?b)" using Cons.prems by simp
  ultimately have "channelData (fill_channels d nc fr ?b cs) ! c =
     (if c \<in> set cs then fill_channel d nc c (channelData ?b ! c) fr else channelData ?b ! c)"
    by (rule Cons.IH)
  then show ?case using Cons.prems
    by (cases "c = a") (auto simp: getChannelData_def)
qed


lemma length_int16_pairs [simp]: "length (int16_pairs bs) = length bs div 2"
  by (induction bs rule: int16_pairs.induct) simp_all

lemma nth_int16_pairs:
  "k < length bs div 2 \<Longrightarrow>
   int16_pairs bs ! k = int16_of_bytes (bs ! (2 * k)) (bs ! (2 * k + 1))"
proof (induction bs arbitrary: k rule: int16_pairs.induct)
  case (1 lo hi rest)
  then show ?case by (cases k) simp_all
qed simp_all

lemma frames_below_ceiling:
  assumes "0 < nc"
  shows "n div nc \<le> nat \<lceil>real n / real nc\<rceil>"
proof -
  have "\<lfloor>real n / real nc\<rfloor> = int (n div nc)"
    by (simp add: floor_divide_of_nat_eq)
  moreover have "\<lfloor>real n / real nc\<rfloor> \<le> \<lceil>real n / real nc\<rceil>"
    by (rule floor_le_ceiling)
  ultimately show ?thesis by linarith
qed

lemma decodeAudioData_closed:
  assumes acc: "accepts ctx nc rate"
    and ev: "even (length data)"
    and f: "f = (length data div 2) div nc"
    and pos: "1 \<le> f"
  shows "decodeAudioData data ctx rate nc =
           Inr \<lparr>sampleRate = rate, buf_length = f,
                channelData = map (\<lambda>c. map (\<lambda>i. Num (pcm_sample data (i * nc + c))) [0..<f]) [0..<nc]\<rparr>"
proof -
  let ?d = "int16_pairs data"
  let ?n = "length data div 2"
  let ?fc = "real ?n / real nc"
  let ?b0 = "\<lparr>sampleRate = rate, buf_length = f,
              channelData = replicate nc (replicate f (Num 0))\<rparr>"
  let ?frames = "[0..<nat \<lceil>?fc\<rceil>]"
  let ?r = "fill_channels ?d nc ?frames ?b0 [0..<nc]"
  have nc: "0 < nc" using acc by (simp add: accepts_def)
  have fl: "nat \<lfloor>?fc\<rfloor> = f"
    by (simp add: f floor_divide_of_nat_eq)
  have cb: "createBuffer ctx nc ?fc rate = Inr ?b0"
    using acc pos fl by (simp add: createBuffer_def accepts_def)
  have dec: "decodeAudioData data ctx rate nc = Inr ?r"
    using ev cb by (simp add: decodeAudioData_def Int16Array_def bind_err_def)
  have fle: "f \<le> nat \<lceil>?fc\<rceil>"
    unfolding f using nc by (rule frames_below_ceiling)
  have chan: "channelData ?r ! c = map (\<lambda>i. Num (pcm_sample data (i * nc + c))) [0..<f]"
    if c: "c < nc" for c
  proof -
    have "channelData ?r ! c = fill_channel ?d nc c (replicate f (Num 0)) ?frames"
      using c by (simp add: nth_fill_channels)
    also have "\<dots> = map (\<lambda>i. Num (pcm_sample data (i * nc + c))) [0..<f]"
    proof (rule nth_equalityI)
      show "length (fill_channel ?d nc c (replicate f (Num 0)) ?frames) =
            length (map (\<lambda>i. Num (pcm_sample data (i * nc + c))) [0..<f])"
        by simp
    next
      fix i
      assume "i < length (fill_channel ?d nc c (replicate f (Num 0)) ?frames)"
      then have i: "i < f" by simp
      have "i * nc + c < f * nc"
      proof -
        have "i * nc + c < i * nc + nc" using c by simp
        also have "\<dots> = Suc i * nc" by simp
        also have "\<dots> \<le> f * nc" using i by (intro mult_le_mono1) simp
        finally show ?thesis .
      qed
      also have "f * nc \<le> ?n" unfolding f by simp
      finally have idx: "i * nc + c < ?n" .
      have "fill_channel ?d nc c (replicate f (Num 0)) ?frames ! i =
            js_divide (int16_get ?d (i * nc + c)) 32768"
        using i fle by (simp add: nth_fill_channel)
      also have "\<dots> = Num (pcm_sample data (i * nc + c))"
        using idx by (simp add: int16_get_def nth_int16_pairs pcm_sample_def)
      finally show "fill_channel ?d nc c (replicate f (Num 0)) ?frames ! i =
            map (\<lambda>i. Num (pcm_sample data (i * nc + c))) [0..<f] ! i"
        using i by simp
    qed
    finally show ?thesis .
  qed
  have "channelData ?r = map (\<lambda>c. map (\<lambda>i. Num (pcm_sample data (i * nc + c))) [0..<f]) [0..<nc]"
    by (rule nth_equalityI) (simp_all add: chan)
  then have "?r = \<lparr>sampleRate = rate, buf_length = f,
                channelData = map (\<lambda>c. map (\<lambda>i. Num (pcm_sample data (i * nc + c))) [0..<f]) [0..<nc]\<rparr>"
    by (intro AudioBuffer.equality) simp_all
  with dec show ?thesis by simp
qed

text \<open>
  Every decoded sample is an integer of at most 16 bits over \<open>2^15\<close>, and so are its
  products with 32768 and 32767, with numerators far below \<open>2^53\<close>: the doubles of the
  source hold these values exactly, and so does the 32-bit float in which the buffer
  stores the sample.
\<close>

lemma decoded_sample_dyadic:
  "\<exists>v::int. - 32768 \<le> v \<and> v \<le> 32767
     \<and> pcm_sample data k = real_of_int v / 2 ^ 15
     \<and> pcm_sample data k * 32768 = real_of_int (v * 32768) / 2 ^ 15
     \<and> pcm_sample data k * 32767 = real_of_int (v * 32767) / 2 ^ 15
     \<and> \<bar>v * 32768\<bar> < 2 ^ 53 \<and> \<bar>v * 32767\<bar> < 2 ^ 53"
proof -
  define v where "v = sint (int16_of_bytes (data ! (2 * k)) (data ! (2 * k + 1)))"
  have r: "- 32768 \<le> v" "v \<le> 32767"
    using sint_ge [of "int16_of_bytes (data ! (2 * k)) (data ! (2 * k + 1))"]
      sint_lt [of "int16_of_bytes (data ! (2 * k)) (data ! (2 * k + 1))"]
    by (simp_all add: v_def)
  have x: "pcm_sample data k = real_of_int v / 2 ^ 15"
    unfolding pcm_sample_def v_def by simp
  from r have "\<bar>v * 32768\<bar> < 2 ^ 53" "\<bar>v * 32767\<bar> < 2 ^ 53" by simp_all
  with r x show ?thesis by (intro exI [of _ v]) simp
qed

section \<open>Properties of the encoders\<close>

subsection \<open>Bytes of integers\<close>


lemma ucast_drop_of_nat:
  "(ucast (drop_bit k (of_nat n :: 'a::len word)) :: byte) = of_nat (n div 2 ^ k)"
  if "k + 8 \<le> LENGTH('a)"
proof -
  have "(ucast (drop_bit k (of_nat n :: 'a word)) :: byte) = of_nat (drop_bit k n)"
    using that by (intro bit_word_eqI) (auto simp: bit_simps)
  then show ?thesis by (simp add: drop_bit_eq_div)
qed

lemma bytes16_of_nat: "bytes16 (of_nat n) True = u16le n"
  using ucast_drop_of_nat [where 'a = 16 and k = 0 and n = n]
    ucast_drop_of_nat [where 'a = 16 and k = 8 and n = n]
  by (simp add: bytes16_def u16le_def)

lemma bytes32_of_nat: "bytes32 (of_nat n) True = u32le n"
  using ucast_drop_of_nat [where 'a = 32 and k = 0 and n = n]
    ucast_drop_of_nat [where 'a = 32 and k = 8 and n = n]
    ucast_drop_of_nat [where 'a = 32 and k = 16 and n = n]
    ucast_drop_of_nat [where 'a = 32 and k = 24 and n = n]
  by (simp add: bytes32_def u32le_def)

lemma le_value_u16le: "le_value (u16le n) = n mod 65536"
proof -
  have "n mod (256 * 256) = 256 * (n div 256 mod 256) + n mod 256"
    by (rule mod_mult2_eq)
  then show ?thesis by (simp add: u16le_def unat_of_nat)
qed

lemma le_value_u32le: "le_value (u32le n) = n mod 4294967296"
proof -
  have a: "n mod (256 * 256) = 256 * (n div 256 mod 256) + n mod 256"
    by (rule mod_mult2_eq)
  have b: "n mod (65536 * 256) = 65536 * (n div 65536 mod 256) + n mod 65536"
    by (rule mod_mult2_eq)
  have c: "n mod (16777216 * 256) = 16777216 * (n div 16777216 mod 256) + n mod 16777216"
    by (rule mod_mult2_eq)
  from a b c show ?thesis by (simp add: u32le_def unat_of_nat)
qed

lemma bytes16_sint: "bytes16 w True = i16le w"
proof -
  have lo: "(ucast w :: byte) = of_int (sint w)"
    by (rule bit_word_eqI) (auto simp: bit_simps)
  have "(ucast (drop_bit 8 w) :: byte) = of_int (drop_bit 8 (sint w))"
  proof (rule bit_word_eqI)
    fix n
    assume "n < LENGTH(8)"
    then show "bit (ucast (drop_bit 8 w) :: byte) n \<longleftrightarrow>
               bit (of_int (drop_bit 8 (sint w)) :: byte) n"
      by (cases "n = 7") (auto simp: bit_simps min_def)
  qed
  then have hi: "(ucast (drop_bit 8 w) :: byte) = of_int (sint w div 256)"
    by (simp add: drop_bit_eq_div)
  show ?thesis by (simp add: bytes16_def i16le_def lo hi)
qed

lemma int16_of_bytes_split: "int16_of_bytes (ucast w) (ucast (drop_bit 8 w)) = w"
  unfolding int16_of_bytes_def
  by (rule bit_word_eqI) (auto simp: bit_simps)

subsection \<open>Writing into the view\<close>


lemma bind_err_Inr [simp]: "bind_err (Inr v) f = f v"
  by (simp add: bind_err_def)

lemma bind_err_Inl [simp]: "bind_err (Inl e) f = Inl e"
  by (simp add: bind_err_def)

lemma length_ascii [simp]: "length (ascii str) = length str"
  by (simp add: ascii_def)

lemma length_u16le [simp]: "length (u16le n) = 2"
  by (simp add: u16le_def)

lemma length_u32le [simp]: "length (u32le n) = 4"
  by (simp add: u32le_def)

lemma length_i16le [simp]: "length (i16le w) = 2"
  by (simp add: i16le_def)

lemma SetViewValue_cursor:
  assumes "length pre = off" and "off + length bs \<le> length v0"
  shows "SetViewValue (pre @ drop off v0) off bs = Inr ((pre @ bs) @ drop (off + length bs) v0)"
  using assms by (simp add: SetViewValue_def add.commute)

lemma writeString_cursor:
  assumes "length pre = off" and "off + length str \<le> length v0"
  shows "writeString (pre @ drop off v0) off str = Inr ((pre @ ascii str) @ drop (off + length str) v0)"
  using assms
proof (induction str arbitrary: pre off)
  case Nil
  then show ?case by (simp add: ascii_def)
next
  case (Cons c str)
  have "setUint8 (pre @ drop off v0) off (of_char c) =
          Inr ((pre @ [of_nat (of_char c)]) @ drop (off + 1) v0)"
    unfolding setUint8_def using Cons.prems
    by (subst SetViewValue_cursor) simp_all
  moreover have "writeString ((pre @ [of_nat (of_char c)]) @ drop (off + 1) v0) (off + 1) str =
          Inr (((pre @ [of_nat (of_char c)]) @ ascii str) @ drop (off + 1 + length str) v0)"
    using Cons.prems by (intro Cons.IH) simp_all
  ultimately show ?case by (simp add: ascii_def)
qed

lemma writeString_cursor_n:
  assumes "length pre = off" and "length str = n" and "off + n \<le> length v0"
  shows "writeString (pre @ drop off v0) off str = Inr ((pre @ ascii str) @ drop (off + n) v0)"
  using writeString_cursor [of pre off str v0] assms by simp

lemma setUint16_cursor:
  assumes "length pre = off" and "off + 2 \<le> length v0"
  shows "setUint16 (pre @ drop off v0) off n True = Inr ((pre @ u16le n) @ drop (off + 2) v0)"
  unfolding setUint16_def bytes16_of_nat using assms
  by (subst SetViewValue_cursor) simp_all

lemma setUint32_cursor:
  assumes "length pre = off" and "off + 4 \<le> length v0"
  shows "setUint32 (pre @ drop off v0) off n True = Inr ((pre @ u32le n) @ drop (off + 4) v0)"
  unfolding setUint32_def bytes32_of_nat using assms
  by (subst SetViewValue_cursor) simp_all

lemma header_writes:
  assumes len: "44 \<le> length v0"
  shows "bind_err (writeString v0 0 ''RIFF'') (\<lambda>view.
         bind_err (setUint32 view 4 a True) (\<lambda>view.
         bind_err (writeString view 8 ''WAVE'') (\<lambda>view.
         bind_err (writeString view 12 ''fmt '') (\<lambda>view.
         bind_err (setUint32 view 16 b True) (\<lambda>view.
         bind_err (setUint16 view 20 c True) (\<lambda>view.
         bind_err (setUint16 view 22 d True) (\<lambda>view.
         bind_err (setUint32 view 24 e True) (\<lambda>view.
         bind_err (setUint32 view 28 f True) (\<lambda>view.
         bind_err (setUint16 view 32 g True) (\<lambda>view.
         bind_err (setUint16 view 34 h True) (\<lambda>view.
         bind_err (writeString view 36 ''data'') (\<lambda>view.
         bind_err (setUint32 view 40 l True) k))))))))))))
       = k (ascii ''RIFF'' @ u32le a @ ascii ''WAVE'' @ ascii ''fmt '' @ u32le b @ u16le c @
            u16le d @ u32le e @ u32le f @ u16le g @ u16le h @ ascii ''data'' @ u32le l @
            drop 44 v0)"
proof -
  let ?p1 = "[] @ ascii ''RIFF''"
  let ?p2 = "?p1 @ u32le a"
  let ?p3 = "?p2 @ ascii ''WAVE''"
  let ?p4 = "?p3 @ ascii ''fmt ''"
  let ?p5 = "?p4 @ u32le b"
  let ?p6 = "?p5 @ u16le c"
  let ?p7 = "?p6 @ u16le d"
  let ?p8 = "?p7 @ u32le e"
  let ?p9 = "?p8 @ u32le f"
  let ?p10 = "?p9 @ u16le g"
  let ?p11 = "?p10 @ u16le h"
  let ?p12 = "?p11 @ ascii ''data''"
  let ?p13 = "?p12 @ u32le l"
  have s1: "writeString v0 0 ''RIFF'' = Inr (?p1 @ drop 4 v0)"
    using writeString_cursor_n [of "[]" 0 "''RIFF''" 4 v0] len by (simp del: writeString.simps)
  have s2: "setUint32 (?p1 @ drop 4 v0) 4 a True = Inr (?p2 @ drop 8 v0)"
    using setUint32_cursor [of ?p1 4 v0 a] len by simp
  have s3: "writeString (?p2 @ drop 8 v0) 8 ''WAVE'' = Inr (?p3 @ drop 12 v0)"
    using writeString_cursor_n [of ?p2 8 "''WAVE''" 4 v0] len by (simp del: writeString.simps)
  have s4: "writeString (?p3 @ drop 12 v0) 12 ''fmt '' = Inr (?p4 @ drop 16 v0)"
    using writeString_cursor_n [of ?p3 12 "''fmt ''" 4 v0] len by (simp del: writeString.simps)
  have s5: "setUint32 (?p4 @ drop 16 v0) 16 b True = Inr (?p5 @ drop 20 v0)"
    using setUint32_cursor [of ?p4 16 v0 b] len by simp
  have s6: "setUint16 (?p5 @ drop 20 v0) 20 c True = Inr (?p6 @ drop 22 v0)"
    using setUint16_cursor [of ?p5 20 v0 c] len by simp
  have s7: "setUint16 (?p6 @ drop 22 v0) 22 d True = Inr (?p7 @ drop 24 v0)"
    using setUint16_cursor [of ?p6 22 v0 d] len by simp
  have s8: "setUint32 (?p7 @ drop 24 v0) 24 e True = Inr (?p8 @ drop 28 v0)"
    using setUint32_cursor [of ?p7 24 v0 e] len by simp
  have s9: "setUint32 (?p8 @ drop 28 v0) 28 f True = Inr (?p9 @ drop 32 v0)"
    using setUint32_cursor [of ?p8 28 v0 f] len by simp
  have s10: "setUint16 (?p9 @ drop 32 v0) 32 g True = Inr (?p10 @ drop 34 v0)"
    using setUint16_cursor [of ?p9 32 v0 g] len by simp
  have s11: "setUint16 (?p10 @ drop 34 v0) 34 h True = Inr (?p11 @ drop 36 v0)"
    using setUint16_cursor [of ?p10 34 v0 h] len by simp
  have s12: "writeString (?p11 @ drop 36 v0) 36 ''data'' = Inr (?p12 @ drop 40 v0)"
    using writeString_cursor_n [of ?p11 36 "''data''" 4 v0] len by (simp del: writeString.simps)
  have s13: "setUint32 (?p12 @ drop 40 v0) 40 l True = Inr (?p13 @ drop 44 v0)"
    using setUint32_cursor [of ?p12 40 v0 l] len by simp
  have "bind_err (writeString v0 0 ''RIFF'') (\<lambda>view.
         bind_err (setUint32 view 4 a True) (\<lambda>view.
         bind_err (writeString view 8 ''WAVE'') (\<lambda>view.
         bind_err (writeString view 12 ''fmt '') (\<lambda>view.
         bind_err (setUint32 view 16 b True) (\<lambda>view.
         bind_err (setUint16 view 20 c True) (\<lambda>view.
         bind_err (setUint16 view 22 d True) (\<lambda>view.
         bind_err (setUint32 view 24 e True) (\<lambda>view.
         bind_err (setUint32 view 28 f True) (\<lambda>view.
         bind_err (setUint16 view 32 g True) (\<lambda>view.
         bind_err (setUint16 view 34 h True) (\<lambda>view.
         bind_err (writeString view 36 ''data'') (\<lambda>view.
         bind_err (setUint32 view 40 l True) k))))))))))))
       = k (?p13 @ drop 44 v0)"
    by (simp only: s1 s2 s3 s4 s5 s6 s7 s8 s9 s10 s11 s12 s13 bind_err_Inr)
  then show ?thesis by (simp only: append_Nil append_assoc)
qed


lemma sample_expression:
  "ToInt16 (let s = Math_max (Num (- 1)) (Math_min (Num 1) x) in
            if js_less s (Num 0) then js_times s (Num 32768) else js_times s (Num 32767)) = pcm16 x"
proof (cases x)
  case NaN
  then show ?thesis by simp
next
  case (Num r)
  define s where "s = clamp_sample r"
  have m: "Math_max (Num (- 1)) (Math_min (Num 1) x) = Num s"
    by (simp add: Num s_def clamp_sample_def)
  have q: "pcm16 x = word_of_int (js_trunc (if s < 0 then s * 32768 else s * 32767))"
    by (simp add: Num quantize_def s_def)
  show ?thesis unfolding Let_def m q by (cases "s < 0") simp_all
qed

lemma setInt16_cursor:
  assumes "length pre = off" and "off + 2 \<le> length v0"
  shows "setInt16 (pre @ drop off v0) off v True = Inr ((pre @ i16le (ToInt16 v)) @ drop (off + 2) v0)"
  unfolding setInt16_def bytes16_sint using assms
  by (subst SetViewValue_cursor) simp_all

lemma floatTo16BitPCM_cursor:
  assumes "length pre = off" and "off + 2 * length xs \<le> length v0"
  shows "floatTo16BitPCM (pre @ drop off v0) off xs =
           Inr ((pre @ concat (map (\<lambda>x. i16le (pcm16 x)) xs)) @ drop (off + 2 * length xs) v0)"
  using assms
proof (induction xs arbitrary: pre off)
  case Nil
  then show ?case by simp
next
  case (Cons x xs)
  let ?v = "let s = Math_max (Num (- 1)) (Math_min (Num 1) x) in
            if js_less s (Num 0) then js_times s (Num 32768) else js_times s (Num 32767)"
  have w: "setInt16 (pre @ drop off v0) off ?v True = Inr ((pre @ i16le (pcm16 x)) @ drop (off + 2) v0)"
    using Cons.prems by (simp add: setInt16_cursor sample_expression del: append_assoc)
  have r: "floatTo16BitPCM ((pre @ i16le (pcm16 x)) @ drop (off + 2) v0) (off + 2) xs =
        Inr (((pre @ i16le (pcm16 x)) @ concat (map (\<lambda>x. i16le (pcm16 x)) xs)) @
             drop (off + 2 + 2 * length xs) v0)"
    using Cons.prems by (intro Cons.IH) simp_all
  have "floatTo16BitPCM (pre @ drop off v0) off (x # xs) =
        bind_err (setInt16 (pre @ drop off v0) off ?v True)
          (\<lambda>output. floatTo16BitPCM output (off + 2) xs)"
    by (simp add: Let_def)
  also have "\<dots> = Inr (((pre @ i16le (pcm16 x)) @ concat (map (\<lambda>x. i16le (pcm16 x)) xs)) @
             drop (off + 2 + 2 * length xs) v0)"
    by (simp only: w r bind_err_Inr)
  finally show ?case by (simp add: add.assoc)
qed

lemma interleave_frame_cursor:
  assumes "length pre = off" and "off + 2 * length js \<le> length v0"
  shows "interleave_frame (pre @ drop off v0) off chs i js =
           Inr ((pre @ concat (map (\<lambda>j. i16le (pcm16 (float_get (chs ! j) i))) js)) @
                  drop (off + 2 * length js) v0,
                off + 2 * length js)"
  using assms
proof (induction js arbitrary: pre off)
  case Nil
  then show ?case by simp
next
  case (Cons j js)
  let ?x = "float_get (chs ! j) i"
  let ?v = "let s = Math_max (Num (- 1)) (Math_min (Num 1) ?x) in
            if js_less s (Num 0) then js_times s (Num 32768) else js_times s (Num 32767)"
  let ?rest = "concat (map (\<lambda>j. i16le (pcm16 (float_get (chs ! j) i))) js)"
  have w: "setInt16 (pre @ drop off v0) off ?v True = Inr ((pre @ i16le (pcm16 ?x)) @ drop (off + 2) v0)"
    using Cons.prems by (simp add: setInt16_cursor sample_expression del: append_assoc)
  have r: "interleave_frame ((pre @ i16le (pcm16 ?x)) @ drop (off + 2) v0) (off + 2) chs i js =
        Inr (((pre @ i16le (pcm16 ?x)) @ ?rest) @ drop (off + 2 + 2 * length js) v0,
             off + 2 + 2 * length js)"
    using Cons.prems by (intro Cons.IH) simp_all
  have "interleave_frame (pre @ drop off v0) off chs i (j # js) =
        bind_err (setInt16 (pre @ drop off v0) off ?v True)
          (\<lambda>view. interleave_frame view (off + 2) chs i js)"
    by (simp add: Let_def)
  also have "\<dots> = Inr (((pre @ i16le (pcm16 ?x)) @ ?rest) @ drop (off + 2 + 2 * length js) v0,
             off + 2 + 2 * length js)"
    by (simp only: w r bind_err_Inr)
  finally show ?case by (simp add: add.assoc)
qed

lemma interleave_frames_cursor:
  assumes "length pre = off" and "off + 2 * nc * length is \<le> length v0"
  shows "interleave_frames (pre @ drop off v0) off chs nc is =
           Inr ((pre @ concat (map (\<lambda>i. concat (map (\<lambda>j. i16le (pcm16 (float_get (chs ! j) i)))
                                                   [0..<nc])) is)) @
                  drop (off + 2 * nc * length is) v0,
                off + 2 * nc * length is)"
  using assms
proof (induction "is" arbitrary: pre off)
  case Nil
  then show ?case by simp
next
  case (Cons i "is")
  let ?fr = "\<lambda>i. concat (map (\<lambda>j. i16le (pcm16 (float_get (chs ! j) i))) [0..<nc])"
  have lfr: "length (?fr i) = 2 * nc"
    by (simp add: length_concat comp_def sum_list_triv)
  have bound: "off + 2 * nc + 2 * nc * length is \<le> length v0"
    using Cons.prems by (simp add: algebra_simps)
  have w: "interleave_frame (pre @ drop off v0) off chs i [0..<nc] =
        Inr ((pre @ ?fr i) @ drop (off + 2 * nc) v0, off + 2 * nc)"
    using interleave_frame_cursor [of pre off "[0..<nc]" v0 chs i] Cons.prems bound by simp
  have r: "interleave_frames ((pre @ ?fr i) @ drop (off + 2 * nc) v0) (off + 2 * nc) chs nc is =
        Inr (((pre @ ?fr i) @ concat (map ?fr is)) @ drop (off + 2 * nc + 2 * nc * length is) v0,
             off + 2 * nc + 2 * nc * length is)"
    using Cons.prems lfr bound by (intro Cons.IH) simp_all
  have "interleave_frames (pre @ drop off v0) off chs nc (i # is) =
        bind_err (interleave_frame (pre @ drop off v0) off chs i [0..<nc])
          (\<lambda>(view, off). interleave_frames view off chs nc is)"
    by simp
  also have "\<dots> = Inr (((pre @ ?fr i) @ concat (map ?fr is)) @
                         drop (off + 2 * nc + 2 * nc * length is) v0,
                       off + 2 * nc + 2 * nc * length is)"
    by (simp only: w r bind_err_Inr prod.case)
  finally show ?case by (simp add: algebra_simps)
qed


lemma length_wav_header [simp]: "length (wav_header nc rate len) = 44"
  by (simp add: wav_header_def)

lemma well_formed_channel:
  "well_formed b \<Longrightarrow> j < numberOfChannels b \<Longrightarrow> length (channelData b ! j) = buf_length b"
  by (simp add: well_formed_def numberOfChannels_def list_all_length)

lemma length_frame_bytes [simp]: "length (frame_bytes b i) = 2 * numberOfChannels b"
  by (simp add: frame_bytes_def length_concat comp_def sum_list_triv)

lemma length_wav_payload [simp]: "length (wav_payload b) = 2 * numberOfChannels b * buf_length b"
  by (simp add: wav_payload_def length_concat comp_def sum_list_triv)

lemma payload_interleave:
  assumes wf: "well_formed b" and H: "length H = 44"
    and v0: "length v0 = 44 + buf_length b * numberOfChannels b * 2"
  shows "interleave_frames (H @ drop 44 v0) 44 (map (getChannelData b) [0..<numberOfChannels b])
           (numberOfChannels b) [0..<buf_length b] =
         Inr (H @ wav_payload b, 44 + 2 * numberOfChannels b * buf_length b)"
proof -
  let ?nc = "numberOfChannels b"
  let ?chs = "map (getChannelData b) [0..<?nc]"
  have fr: "concat (map (\<lambda>j. i16le (pcm16 (float_get (?chs ! j) i))) [0..<?nc]) = frame_bytes b i"
    if "i < buf_length b" for i
    unfolding frame_bytes_def
    by (rule arg_cong [where f = concat], rule map_cong)
       (use that wf in \<open>simp_all add: getChannelData_def float_get_def well_formed_channel\<close>)
  have pl: "concat (map (\<lambda>i. concat (map (\<lambda>j. i16le (pcm16 (float_get (?chs ! j) i))) [0..<?nc]))
              [0..<buf_length b]) = wav_payload b"
    unfolding wav_payload_def
    by (rule arg_cong [where f = concat], rule map_cong) (simp_all add: fr)
  have "interleave_frames (H @ drop 44 v0) 44 ?chs ?nc [0..<buf_length b] =
        Inr ((H @ concat (map (\<lambda>i. concat (map (\<lambda>j. i16le (pcm16 (float_get (?chs ! j) i)))
                                                   [0..<?nc])) [0..<buf_length b])) @
                  drop (44 + 2 * ?nc * length [0..<buf_length b]) v0,
                44 + 2 * ?nc * length [0..<buf_length b])"
    using H v0 by (intro interleave_frames_cursor) (simp_all add: mult.commute)
  then show ?thesis using v0 by (simp add: pl mult.commute)
qed

lemma payload_single:
  assumes wf: "well_formed b" and one: "numberOfChannels b = 1" and H: "length H = 44"
    and v0: "length v0 = 44 + buf_length b * numberOfChannels b * 2"
  shows "floatTo16BitPCM (H @ drop 44 v0) 44 (getChannelData b 0) = Inr (H @ wav_payload b)"
proof -
  let ?ch = "getChannelData b 0"
  have len: "length ?ch = buf_length b"
    using wf one by (simp add: getChannelData_def well_formed_channel)
  have "map (\<lambda>x. i16le (pcm16 x)) ?ch = map (\<lambda>i. i16le (pcm16 (?ch ! i))) [0..<length ?ch]"
    by (rule nth_equalityI) simp_all
  also have "\<dots> = map (frame_bytes b) [0..<buf_length b]"
  proof -
    have "frame_bytes b i = i16le (pcm16 (?ch ! i))" for i
      by (simp add: frame_bytes_def one getChannelData_def)
    then show ?thesis by (simp add: len)
  qed
  finally have pl: "concat (map (\<lambda>x. i16le (pcm16 x)) ?ch) = wav_payload b"
    by (simp add: wav_payload_def)
  have "floatTo16BitPCM (H @ drop 44 v0) 44 ?ch =
        Inr ((H @ concat (map (\<lambda>x. i16le (pcm16 x)) ?ch)) @ drop (44 + 2 * length ?ch) v0)"
    using H v0 len one by (intro floatTo16BitPCM_cursor) simp_all
  then show ?thesis using v0 len one by (simp add: pl)
qed

lemma audioBufferToWav_closed:
  assumes wf: "well_formed b"
  shows "audioBufferToWav b =
           Inr \<lparr>blob_parts = wav_header (numberOfChannels b) (sampleRate b)
                               (buf_length b * numberOfChannels b * 2) @ wav_payload b,
                blob_type = ''audio/wav''\<rparr>"
proof -
  let ?nc = "numberOfChannels b"
  let ?len = "buf_length b * ?nc * 2"
  let ?v0 = "replicate (44 + ?len) (0 :: byte)"
  let ?H = "wav_header ?nc (sampleRate b) ?len"
  have v0: "length ?v0 = 44 + buf_length b * ?nc * 2" by simp
  have two: "(16::nat) div 8 = 2" by simp
  have hdr: "ascii ''RIFF'' @ u32le (36 + ?len) @ ascii ''WAVE'' @ ascii ''fmt '' @ u32le 16 @
        u16le 1 @ u16le ?nc @ u32le (sampleRate b) @ u32le (sampleRate b * ?nc * 2) @
        u16le (?nc * 2) @ u16le 16 @ ascii ''data'' @ u32le ?len @ drop 44 ?v0 = ?H @ drop 44 ?v0"
    by (simp only: wav_header_def append_assoc)
  have pay: "(if ?nc = 1 then floatTo16BitPCM (?H @ drop 44 ?v0) 44 (getChannelData b 0)
         else bind_err (interleave_frames (?H @ drop 44 ?v0) 44
                          (map (getChannelData b) [0..<?nc]) ?nc [0..<buf_length b])
                 (\<lambda>(view, off). Inr view)) = Inr (?H @ wav_payload b)"
  proof (cases "?nc = 1")
    case True
    then show ?thesis using payload_single [OF wf True _ v0, of ?H] by simp
  next
    case False
    then show ?thesis using payload_interleave [OF wf _ v0, of ?H] by simp
  qed
  show ?thesis
    unfolding audioBufferToWav_def Let_def two
    by (subst header_writes) (simp_all only: hdr pay bind_err_Inr v0 le_add1)
qed

lemma audioBufferToMp3_closed:
  assumes wf: "well_formed b"
  shows "audioBufferToMp3 b =
           Inr \<lparr>blob_parts = wav_header (numberOfChannels b) (sampleRate b)
                               (buf_length b * numberOfChannels b * 2) @ wav_payload b,
                blob_type = ''audio/mpeg''\<rparr>"
proof -
  let ?nc = "numberOfChannels b"
  let ?len = "buf_length b * ?nc * 2"
  let ?v0 = "replicate (44 + ?len) (0 :: byte)"
  let ?H = "wav_header ?nc (sampleRate b) ?len"
  have v0: "length ?v0 = 44 + buf_length b * ?nc * 2" by simp
  have two: "(16::nat) div 8 = 2" by simp
  have hdr: "ascii ''RIFF'' @ u32le (36 + ?len) @ ascii ''WAVE'' @ ascii ''fmt '' @ u32le 16 @
        u16le 1 @ u16le ?nc @ u32le (sampleRate b) @ u32le (sampleRate b * ?nc * 2) @
        u16le (?nc * 2) @ u16le 16 @ ascii ''data'' @ u32le ?len @ drop 44 ?v0 = ?H @ drop 44 ?v0"
    by (simp only: wav_header_def append_assoc)
  have pay: "interleave_frames (?H @ drop 44 ?v0) 44 (map (getChannelData b) [0..<?nc]) ?nc
               [0..<buf_length b] = Inr (?H @ wav_payload b, 44 + 2 * ?nc * buf_length b)"
    using payload_interleave [OF wf _ v0, of ?H] by simp
  show ?thesis
    unfolding audioBufferToMp3_def Let_def two
    by (subst header_writes) (simp_all only: hdr pay bind_err_Inr v0 le_add1 prod.case)
qed


section \<open>The claims about the decoder\<close>

text \<open>
  C5. For a valid input (a byte sequence of \<open>2 * channelCount * f\<close> bytes with \<open>f\<close> at least 1,
  given to a context that accepts the channel count and the rate) the decoder returns the
  buffer whose sample at frame \<open>i\<close> of channel \<open>c\<close> is the little-endian signed 16-bit
  integer number \<open>i * channelCount + c\<close> of the input, divided by 32768. The bytes
  \<open>00 00 FF 7F\<close> at one channel decode to \<open>0\<close> and \<open>32767 / 32768\<close>, which is below 1.
\<close>
theorem decode_normalizes:
  "(accepts ctx nc rate \<and> 1 \<le> f \<and> length data = 2 * nc * f \<longrightarrow>
      decodeAudioData data ctx rate nc =
        Inr \<lparr>sampleRate = rate, buf_length = f,
             channelData = map (\<lambda>c. map (\<lambda>i. Num (pcm_sample data (i * nc + c))) [0..<f]) [0..<nc]\<rparr>)
   \<and> pcm_sample data k =
        real_of_int (sint (int16_of_bytes (data ! (2 * k)) (data ! (2 * k + 1)))) / 32768
   \<and> decodeAudioData [0x00, 0x00, 0xFF, 0x7F] browser_context 24000 1 =
        Inr \<lparr>sampleRate = 24000, buf_length = 2, channelData = [[Num 0, Num (32767 / 32768)]]\<rparr>
   \<and> (32767 / 32768 :: real) < 1"
proof (intro conjI impI)
  assume a: "accepts ctx nc rate \<and> 1 \<le> f \<and> length data = 2 * nc * f"
  then have "0 < nc" by (simp add: accepts_def)
  with a have "even (length data)" "f = (length data div 2) div nc" by simp_all
  with a show "decodeAudioData data ctx rate nc =
        Inr \<lparr>sampleRate = rate, buf_length = f,
             channelData = map (\<lambda>c. map (\<lambda>i. Num (pcm_sample data (i * nc + c))) [0..<f]) [0..<nc]\<rparr>"
    by (intro decodeAudioData_closed) simp_all
next
  show "pcm_sample data k =
        real_of_int (sint (int16_of_bytes (data ! (2 * k)) (data ! (2 * k + 1)))) / 32768"
    by (simp add: pcm_sample_def)
next
  have "decodeAudioData [0x00, 0x00, 0xFF, 0x7F] browser_context 24000 1 =
        Inr \<lparr>sampleRate = 24000, buf_length = 2,
             channelData = map (\<lambda>c. map (\<lambda>i. Num (pcm_sample [0x00, 0x00, 0xFF, 0x7F] (i * 1 + c))) [0..<2]) [0..<1]\<rparr>"
    by (rule decodeAudioData_closed) (simp_all add: accepts_def browser_context_def)
  also have "[0..<2] = [0, Suc 0]" by (simp add: upt_rec)
  finally show "decodeAudioData [0x00, 0x00, 0xFF, 0x7F] browser_context 24000 1 =
        Inr \<lparr>sampleRate = 24000, buf_length = 2, channelData = [[Num 0, Num (32767 / 32768)]]\<rparr>"
    by (simp add: pcm_sample_def int16_of_bytes_def)
next
  show "(32767 / 32768 :: real) < 1" by simp
qed

theorem decode_normalizes_witness:
  "accepts browser_context 2 24000 \<and> (1::nat) \<le> 2
   \<and> length [0x00, 0x00, 0xFF, 0x7F, 0x00, 0x80, 0x01, 0x00 :: byte] = 2 * 2 * 2
   \<and> decodeAudioData [0x00, 0x00, 0xFF, 0x7F, 0x00, 0x80, 0x01, 0x00] browser_context 24000 2 =
        Inr \<lparr>sampleRate = 24000, buf_length = 2,
             channelData = [[Num 0, Num (- 1)], [Num (32767 / 32768), Num (1 / 32768)]]\<rparr>"
proof -
  have u: "[0..<2] = [0, Suc 0]" by (simp add: upt_rec)
  show ?thesis
    using decode_normalizes [of browser_context 2 24000 2
        "[0x00, 0x00, 0xFF, 0x7F, 0x00, 0x80, 0x01, 0x00]"]
    by (simp add: accepts_def browser_context_def u pcm_sample_def int16_of_bytes_def)
qed

text \<open>
  C3, as stated, fails: six bytes at two channels are three samples, one frame and a
  half, and the decoder returns a buffer of one frame instead of failing.
\<close>
theorem decode_partial_frame_counterexample:
  "length [0x00, 0x00, 0xFF, 0x7F, 0x01, 0x00 :: byte] mod (2 * 2) \<noteq> 0
   \<and> decodeAudioData [0x00, 0x00, 0xFF, 0x7F, 0x01, 0x00] browser_context 24000 2 =
        Inr \<lparr>sampleRate = 24000, buf_length = 1,
             channelData = [[Num 0], [Num (32767 / 32768)]]\<rparr>"
proof -
  have u: "[0..<2] = [0, Suc 0]" by (simp add: upt_rec)
  have "decodeAudioData [0x00, 0x00, 0xFF, 0x7F, 0x01, 0x00] browser_context 24000 2 =
        Inr \<lparr>sampleRate = 24000, buf_length = 1,
             channelData = map (\<lambda>c. map (\<lambda>i. Num (pcm_sample [0x00, 0x00, 0xFF, 0x7F, 0x01, 0x00] (i * 2 + c))) [0..<1]) [0..<2]\<rparr>"
    by (rule decodeAudioData_closed) (simp_all add: accepts_def browser_context_def)
  then show ?thesis by (simp add: u pcm_sample_def int16_of_bytes_def)
qed

text \<open>
  C3, amended. An input of odd length makes the decoder fail (the \<open>RangeError\<close> of the
  \<open>Int16Array\<close> view), so at one channel every input whose length is not a multiple
  of \<open>2 * channelCount\<close> fails. An input of even length fails, with the
  \<open>NotSupportedError\<close> of \<open>createBuffer\<close>, exactly when the context does not accept the
  channel count or the sample rate or the input holds no whole frame. Every other
  input of even length is decoded, whether or not its length is a multiple of
  \<open>2 * channelCount\<close>: the buffer has as many frames as the input has whole frames, and
  the samples of a trailing partial frame are dropped.
\<close>

theorem decode_partial_frame:
  "(odd (length data) \<longrightarrow> decodeAudioData data ctx rate nc = Inl RangeError)
   \<and> (even (length data) \<and> (\<not> accepts ctx nc rate \<or> length data div 2 < nc) \<longrightarrow>
        decodeAudioData data ctx rate nc = Inl NotSupportedError)
   \<and> (even (length data) \<and> accepts ctx nc rate \<and> nc \<le> length data div 2 \<longrightarrow>
        decodeAudioData data ctx rate nc =
          Inr \<lparr>sampleRate = rate, buf_length = length data div 2 div nc,
               channelData = map (\<lambda>c. map (\<lambda>i. Num (pcm_sample data (i * nc + c)))
                                        [0..<length data div 2 div nc]) [0..<nc]\<rparr>)"
proof (intro conjI impI)
  assume "odd (length data)"
  then show "decodeAudioData data ctx rate nc = Inl RangeError"
    by (simp add: decodeAudioData_def Int16Array_def)
next
  assume a: "even (length data) \<and> (\<not> accepts ctx nc rate \<or> length data div 2 < nc)"
  have "createBuffer ctx nc (real (length data div 2) / real nc) rate = Inl NotSupportedError"
  proof (cases "accepts ctx nc rate")
    case True
    with a have "length data div 2 < nc" by simp
    then have "nat \<lfloor>real (length data div 2) / real nc\<rfloor> = 0"
      by (simp add: floor_divide_of_nat_eq)
    then show ?thesis by (simp add: createBuffer_def)
  next
    case False
    then have "nc = 0 \<or> maxChannels ctx < nc \<or> rate < minRate ctx \<or> maxRate ctx < rate"
      by (auto simp add: accepts_def)
    then show ?thesis by (auto simp add: createBuffer_def)
  qed
  with a show "decodeAudioData data ctx rate nc = Inl NotSupportedError"
    by (simp add: decodeAudioData_def Int16Array_def)
next
  assume a: "even (length data) \<and> accepts ctx nc rate \<and> nc \<le> length data div 2"
  then have "0 < nc" by (simp add: accepts_def)
  with a have "1 \<le> length data div 2 div nc"
    by (simp add: Suc_le_eq div_greater_zero_iff)
  with a show "decodeAudioData data ctx rate nc =
          Inr \<lparr>sampleRate = rate, buf_length = length data div 2 div nc,
               channelData = map (\<lambda>c. map (\<lambda>i. Num (pcm_sample data (i * nc + c)))
                                        [0..<length data div 2 div nc]) [0..<nc]\<rparr>"
    by (intro decodeAudioData_closed) simp_all
qed

theorem decode_partial_frame_witness:
  "odd (length [0x00, 0x00, 0xFF :: byte])
   \<and> decodeAudioData [0x00, 0x00, 0xFF] browser_context 24000 1 = Inl RangeError
   \<and> even (length [0x00, 0x00 :: byte]) \<and> length [0x00, 0x00 :: byte] div 2 < 2
   \<and> decodeAudioData [0x00, 0x00] browser_context 24000 2 = Inl NotSupportedError
   \<and> even (length [0x00, 0x00, 0xFF, 0x7F :: byte]) \<and> \<not> accepts browser_context 1 4000
   \<and> decodeAudioData [0x00, 0x00, 0xFF, 0x7F] browser_context 4000 1 = Inl NotSupportedError
   \<and> even (length [0x00, 0x00, 0xFF, 0x7F, 0x01, 0x00 :: byte])
   \<and> accepts browser_context 2 24000
   \<and> 2 \<le> length [0x00, 0x00, 0xFF, 0x7F, 0x01, 0x00 :: byte] div 2
   \<and> decodeAudioData [0x00, 0x00, 0xFF, 0x7F, 0x01, 0x00] browser_context 24000 2 =
        Inr \<lparr>sampleRate = 24000, buf_length = 1,
             channelData = [[Num 0], [Num (32767 / 32768)]]\<rparr>"
proof -
  have u: "[0..<2] = [0, Suc 0]" by (simp add: upt_rec)
  show ?thesis
    using decode_partial_frame [of "[0x00, 0x00, 0xFF]" browser_context 24000 1]
      decode_partial_frame [of "[0x00, 0x00]" browser_context 24000 2]
      decode_partial_frame [of "[0x00, 0x00, 0xFF, 0x7F]" browser_context 4000 1]
      decode_partial_frame [of "[0x00, 0x00, 0xFF, 0x7F, 0x01, 0x00]" browser_context 24000 2]
    by (simp add: accepts_def browser_context_def u pcm_sample_def int16_of_bytes_def)
qed

section \<open>Properties of the round trip\<close>


lemma clamp_sample_range: "- 1 \<le> clamp_sample x \<and> clamp_sample x \<le> 1"
  by (simp add: clamp_sample_def)

lemma quantize_range: "- 32768 \<le> quantize x \<and> quantize x \<le> 32767"
proof -
  define s where "s = clamp_sample x"
  have s: "- 1 \<le> s" "s \<le> 1" using clamp_sample_range [of x] by (simp_all add: s_def)
  show ?thesis
  proof (cases "s < 0")
    case True
    have "- 32768 \<le> \<lceil>s * 32768\<rceil>" using s by (simp add: le_ceiling_iff)
    moreover have "\<lceil>s * 32768\<rceil> \<le> 0" using True by (simp add: ceiling_le_iff)
    ultimately show ?thesis using True by (simp add: quantize_def js_trunc_def flip: s_def)
  next
    case False
    have "0 \<le> \<lfloor>s * 32767\<rfloor>" using False by (simp add: le_floor_iff)
    moreover have "\<lfloor>s * 32767\<rfloor> \<le> 32767" using s by (simp add: floor_le_iff)
    ultimately show ?thesis using False by (simp add: quantize_def js_trunc_def flip: s_def)
  qed
qed

lemma sint_pcm16: "sint (pcm16 (Num x)) = quantize x"
  using quantize_range [of x]
  by (simp add: sint_sbintrunc' signed_take_bit_int_eq_self)

lemma quantize_decoded:
  assumes "- 32768 \<le> v" and "v \<le> 32767"
  shows "quantize (real_of_int v / 32768) = (if 0 < v then v - 1 else v)"
proof -
  define x where "x = real_of_int v / 32768"
  have cl: "clamp_sample x = x" using assms by (simp add: clamp_sample_def x_def)
  show ?thesis
  proof (cases "0 < v")
    case True
    have "\<lfloor>x * 32767\<rfloor> = v - 1"
    proof (rule floor_unique)
      show "real_of_int (v - 1) \<le> x * 32767" using assms True by (simp add: x_def)
      show "x * 32767 < real_of_int (v - 1) + 1" using True by (simp add: x_def)
    qed
    then show ?thesis using True
      by (simp add: quantize_def js_trunc_def cl flip: x_def) (simp add: x_def)
  next
    case False
    show ?thesis
    proof (cases "v = 0")
      case True
      then show ?thesis by (simp add: quantize_def js_trunc_def clamp_sample_def)
    next
      case nz: False
      with False have neg: "v < 0" by simp
      then have "x < 0" by (simp add: x_def)
      moreover have "x * 32768 = real_of_int v" by (simp add: x_def)
      ultimately show ?thesis using neg
        by (simp add: quantize_def js_trunc_def cl flip: x_def)
    qed
  qed
qed

lemma int16_pairs_i16le: "int16_pairs (concat (map i16le ws)) = ws"
proof (induction ws)
  case Nil
  then show ?case by simp
next
  case (Cons w ws)
  have "i16le w = [ucast w, ucast (drop_bit 8 w)]"
    using bytes16_sint [of w] by (simp add: bytes16_def)
  with Cons show ?case by (simp add: int16_of_bytes_split)
qed

lemma nth_concat_uniform:
  assumes "\<And>xs. xs \<in> set xss \<Longrightarrow> length xs = n" and "i < length xss" and "c < n"
  shows "concat xss ! (i * n + c) = xss ! i ! c"
  using assms
proof (induction xss arbitrary: i)
  case Nil
  then show ?case by simp
next
  case (Cons xs xss)
  have len: "length xs = n" using Cons.prems(1) by simp
  show ?case
  proof (cases i)
    case 0
    then show ?thesis using Cons.prems len by (simp add: nth_append)
  next
    case (Suc k)
    have "concat xss ! (k * n + c) = xss ! k ! c"
      using Cons.prems Suc by (intro Cons.IH) simp_all
    then show ?thesis using Suc len by (simp add: nth_append)
  qed
qed

lemma concat_map_concat:
  "concat (map f (concat xss)) = concat (map (\<lambda>xs. concat (map f xs)) xss)"
  by (induction xss) simp_all

lemma wav_payload_words: "wav_payload b = concat (map i16le (pcm_words b))"
  by (simp add: wav_payload_def frame_bytes_def [abs_def] pcm_words_def concat_map_concat comp_def)

lemma length_pcm_words: "length (pcm_words b) = numberOfChannels b * buf_length b"
  by (simp add: pcm_words_def length_concat comp_def sum_list_triv)

lemma nth_pcm_words:
  assumes "c < numberOfChannels b" and "i < buf_length b"
  shows "pcm_words b ! (i * numberOfChannels b + c) = pcm16 (channelData b ! c ! i)"
proof -
  let ?xss = "map (\<lambda>i. map (\<lambda>j. pcm16 (channelData b ! j ! i)) [0..<numberOfChannels b])
               [0..<buf_length b]"
  have "concat ?xss ! (i * numberOfChannels b + c) = ?xss ! i ! c"
    using assms by (intro nth_concat_uniform) auto
  then show ?thesis using assms by (simp add: pcm_words_def)
qed

lemma pcm_sample_payload:
  assumes "c < numberOfChannels b" and "i < buf_length b"
  shows "pcm_sample (wav_payload b) (i * numberOfChannels b + c) =
           real_of_int (sint (pcm16 (channelData b ! c ! i))) / 32768"
proof -
  let ?k = "i * numberOfChannels b + c"
  have "?k < i * numberOfChannels b + numberOfChannels b" using assms by simp
  also have "\<dots> = Suc i * numberOfChannels b" by simp
  also have "\<dots> \<le> buf_length b * numberOfChannels b"
    using assms by (intro mult_le_mono1) simp
  finally have k: "?k < length (wav_payload b) div 2" by (simp add: mult.commute)
  have "int16_of_bytes (wav_payload b ! (2 * ?k)) (wav_payload b ! (2 * ?k + 1)) =
        int16_pairs (wav_payload b) ! ?k"
    using k by (simp add: nth_int16_pairs)
  also have "\<dots> = pcm_words b ! ?k"
    by (simp add: wav_payload_words int16_pairs_i16le)
  also have "\<dots> = pcm16 (channelData b ! c ! i)"
    using assms by (rule nth_pcm_words)
  finally show ?thesis by (simp add: pcm_sample_def)
qed


lemma well_formed_decoded:
  assumes "1 \<le> nc"
  shows "well_formed \<lparr>sampleRate = rate, buf_length = f,
           channelData = map (\<lambda>c. map (\<lambda>i. Num (g i c)) [0..<f]) [0..<nc]\<rparr>"
  using assms by (simp add: well_formed_def numberOfChannels_def list_all_iff)

lemma requantized_sample:
  "real_of_int (sint (pcm16 (Num (pcm_sample data k)))) / 32768 =
     (if 0 < pcm_sample data k then pcm_sample data k - 1 / 32768 else pcm_sample data k)"
proof -
  define v where "v = sint (int16_of_bytes (data ! (2 * k)) (data ! (2 * k + 1)))"
  have x: "pcm_sample data k = real_of_int v / 32768"
    unfolding pcm_sample_def v_def ..
  have r: "- 32768 \<le> v" "v \<le> 32767"
    using sint_ge [of "int16_of_bytes (data ! (2 * k)) (data ! (2 * k + 1))"]
      sint_lt [of "int16_of_bytes (data ! (2 * k)) (data ! (2 * k + 1))"]
    by (simp_all add: v_def)
  have q: "sint (pcm16 (Num (real_of_int v / 32768))) = (if 0 < v then v - 1 else v)"
    unfolding sint_pcm16 using r by (rule quantize_decoded)
  show ?thesis unfolding x q by (simp add: diff_divide_distrib)
qed

section \<open>The claims about the codec\<close>

text \<open>
  C1. For every byte sequence of \<open>2 * channelCount * f\<close> bytes (\<open>f\<close> at least 1, context
  accepting the channel count and the rate), \<open>decodeAudioData\<close> returns a buffer,
  \<open>audioBufferToWav\<close> encodes it, and decoding the payload of the container (the bytes
  after the 44-byte header) returns a buffer of the same shape in which every sample is
  within \<open>1 / 32768\<close>, one step of the 16-bit quantization, of the sample first decoded:
  a positive sample comes back exactly one step lower, any other sample unchanged.
\<close>
theorem pcm_roundtrip:
  assumes acc: "accepts ctx nc rate" and f: "1 \<le> f" and len: "length data = 2 * nc * f"
  shows "\<exists>b w b'.
           decodeAudioData data ctx rate nc = Inr b
         \<and> audioBufferToWav b = Inr w
         \<and> decodeAudioData (drop 44 (blob_parts w)) ctx rate nc = Inr b'
         \<and> buf_length b' = f \<and> length (channelData b') = nc
         \<and> (\<forall>c<nc. \<forall>i<f. \<exists>x y.
               channelData b ! c ! i = Num x \<and> channelData b' ! c ! i = Num y
             \<and> y = (if 0 < x then x - 1 / 32768 else x)
             \<and> \<bar>y - x\<bar> \<le> 1 / 32768)"
proof -
  let ?b = "\<lparr>sampleRate = rate, buf_length = f,
             channelData = map (\<lambda>c. map (\<lambda>i. Num (pcm_sample data (i * nc + c))) [0..<f]) [0..<nc]\<rparr>"
  let ?p = "wav_payload ?b"
  let ?w = "\<lparr>blob_parts = wav_header (numberOfChannels ?b) (sampleRate ?b)
                               (buf_length ?b * numberOfChannels ?b * 2) @ ?p,
                blob_type = ''audio/wav''\<rparr>"
  let ?b' = "\<lparr>sampleRate = rate, buf_length = f,
             channelData = map (\<lambda>c. map (\<lambda>i. Num (pcm_sample ?p (i * nc + c))) [0..<f]) [0..<nc]\<rparr>"
  have nc: "1 \<le> nc" using acc by (simp add: accepts_def)
  have chans: "numberOfChannels ?b = nc" by (simp add: numberOfChannels_def)
  have d1: "decodeAudioData data ctx rate nc = Inr ?b"
    using acc f len nc by (intro decodeAudioData_closed) simp_all
  have wf: "well_formed ?b" using nc by (rule well_formed_decoded)
  have enc: "audioBufferToWav ?b = Inr ?w" using wf by (rule audioBufferToWav_closed)
  have pl: "drop 44 (blob_parts ?w) = ?p" by simp
  have lp: "length ?p = 2 * nc * f" by (simp add: chans)
  have d2: "decodeAudioData ?p ctx rate nc = Inr ?b'"
    using acc f lp nc by (intro decodeAudioData_closed) simp_all
  have samples: "\<exists>x y. channelData ?b ! c ! i = Num x \<and> channelData ?b' ! c ! i = Num y
             \<and> y = (if 0 < x then x - 1 / 32768 else x) \<and> \<bar>y - x\<bar> \<le> 1 / 32768"
    if c: "c < nc" and i: "i < f" for c i
  proof -
    let ?x = "pcm_sample data (i * nc + c)"
    let ?y = "pcm_sample ?p (i * nc + c)"
    have bx: "channelData ?b ! c ! i = Num ?x" using c i by simp
    have "?y = real_of_int (sint (pcm16 (channelData ?b ! c ! i))) / 32768"
      using pcm_sample_payload [of c ?b i] c i by (simp add: chans)
    then have y: "?y = (if 0 < ?x then ?x - 1 / 32768 else ?x)"
      unfolding bx by (simp only: requantized_sample)
    then have "\<bar>?y - ?x\<bar> \<le> 1 / 32768" by simp
    with y show ?thesis using c i by simp
  qed
  show ?thesis
    using d1 enc d2 samples unfolding pl by (intro exI conjI) (assumption | simp)+
qed


theorem pcm_roundtrip_witness:
  "accepts browser_context 1 24000 \<and> (1::nat) \<le> 2
   \<and> length [0x00, 0x00, 0xFF, 0x7F :: byte] = 2 * 1 * 2
   \<and> (\<exists>b w b'.
           decodeAudioData [0x00, 0x00, 0xFF, 0x7F] browser_context 24000 1 = Inr b
         \<and> audioBufferToWav b = Inr w
         \<and> decodeAudioData (drop 44 (blob_parts w)) browser_context 24000 1 = Inr b'
         \<and> buf_length b' = 2 \<and> length (channelData b') = 1
         \<and> (\<forall>c<1. \<forall>i<2. \<exists>x y.
               channelData b ! c ! i = Num x \<and> channelData b' ! c ! i = Num y
             \<and> y = (if 0 < x then x - 1 / 32768 else x)
             \<and> \<bar>y - x\<bar> \<le> 1 / 32768))"
proof -
  have h: "accepts browser_context 1 24000" "(1::nat) \<le> 2"
    "length [0x00, 0x00, 0xFF, 0x7F :: byte] = 2 * 1 * 2"
    by (simp_all add: accepts_def browser_context_def)
  show ?thesis
    using h pcm_roundtrip [OF h] by (intro conjI) assumption+
qed

text \<open>
  C4. For every well-formed buffer \<open>audioBufferToWav\<close> returns the 44 header bytes
  followed by the payload, \<open>44 + frameCount * channelCount * 2\<close> bytes in all. The
  header is \<open>RIFF\<close>, the size \<open>36 + data length\<close>, \<open>WAVE\<close>, \<open>fmt\<close> with the chunk size 16,
  the PCM tag 1, the channel count, the sample rate, the byte rate
  \<open>sampleRate * channelCount * 2\<close>, the block align \<open>channelCount * 2\<close> and 16 bits per
  sample, then \<open>data\<close> and the data length; each field holds its value little-endian,
  reduced modulo the width of the field. The payload holds the frames in order and, in
  each frame, the channels in order, each sample as the little-endian two's-complement
  16-bit integer obtained by clamping to \<open>[-1, 1]\<close>, scaling by 32768 if negative and
  by 32767 otherwise, and dropping the fraction.
\<close>
theorem wav_container:
  "(well_formed b \<longrightarrow>
      audioBufferToWav b =
        Inr \<lparr>blob_parts = wav_header (numberOfChannels b) (sampleRate b)
                             (buf_length b * numberOfChannels b * 2) @ wav_payload b,
             blob_type = ''audio/wav''\<rparr>)
   \<and> length (wav_header (numberOfChannels b) (sampleRate b)
               (buf_length b * numberOfChannels b * 2) @ wav_payload b) =
       44 + buf_length b * numberOfChannels b * 2
   \<and> length (wav_header nc rate len) = 44
   \<and> wav_header nc rate len =
       ascii ''RIFF'' @ u32le (36 + len) @ ascii ''WAVE'' @
       ascii ''fmt '' @ u32le 16 @ u16le 1 @ u16le nc @ u32le rate @
       u32le (rate * nc * 2) @ u16le (nc * 2) @ u16le 16 @
       ascii ''data'' @ u32le len
   \<and> le_value (u16le n) = n mod 2 ^ 16 \<and> le_value (u32le n) = n mod 2 ^ 32
   \<and> wav_payload b =
       concat (map (\<lambda>i. concat (map (\<lambda>j. i16le (pcm16 (channelData b ! j ! i)))
                                   [0..<numberOfChannels b])) [0..<buf_length b])
   \<and> i16le w = [of_int (sint w), of_int (sint w div 256)]
   \<and> sint (pcm16 (Num x)) =
       js_trunc (if max (- 1) (min 1 x) < 0 then max (- 1) (min 1 x) * 32768
                 else max (- 1) (min 1 x) * 32767)
   \<and> - 32768 \<le> sint (pcm16 (Num x)) \<and> sint (pcm16 (Num x)) \<le> 32767"
proof (intro conjI impI)
  assume "well_formed b"
  then show "audioBufferToWav b =
        Inr \<lparr>blob_parts = wav_header (numberOfChannels b) (sampleRate b)
                             (buf_length b * numberOfChannels b * 2) @ wav_payload b,
             blob_type = ''audio/wav''\<rparr>"
    by (rule audioBufferToWav_closed)
next
  show "length (wav_header (numberOfChannels b) (sampleRate b)
               (buf_length b * numberOfChannels b * 2) @ wav_payload b) =
       44 + buf_length b * numberOfChannels b * 2"
    by (simp add: mult.commute)
next
  show "length (wav_header nc rate len) = 44" by simp
next
  show "wav_header nc rate len =
       ascii ''RIFF'' @ u32le (36 + len) @ ascii ''WAVE'' @
       ascii ''fmt '' @ u32le 16 @ u16le 1 @ u16le nc @ u32le rate @
       u32le (rate * nc * 2) @ u16le (nc * 2) @ u16le 16 @
       ascii ''data'' @ u32le len"
    by (simp only: wav_header_def)
next
  show "le_value (u16le n) = n mod 2 ^ 16" by (simp add: le_value_u16le)
next
  show "le_value (u32le n) = n mod 2 ^ 32" by (simp add: le_value_u32le)
next
  show "wav_payload b =
       concat (map (\<lambda>i. concat (map (\<lambda>j. i16le (pcm16 (channelData b ! j ! i)))
                                   [0..<numberOfChannels b])) [0..<buf_length b])"
    by (simp add: wav_payload_def frame_bytes_def [abs_def])
next
  show "i16le w = [of_int (sint w), of_int (sint w div 256)]"
    by (simp only: i16le_def)
next
  show "sint (pcm16 (Num x)) =
       js_trunc (if max (- 1) (min 1 x) < 0 then max (- 1) (min 1 x) * 32768
                 else max (- 1) (min 1 x) * 32767)"
    by (simp only: sint_pcm16 quantize_def clamp_sample_def)
next
  show "- 32768 \<le> sint (pcm16 (Num x))" "sint (pcm16 (Num x)) \<le> 32767"
    using quantize_range [of x] by (simp_all only: sint_pcm16)
qed

lemma bytes_two_samples:
  "wav_header (numberOfChannels two_samples) (sampleRate two_samples)
       (buf_length two_samples * numberOfChannels two_samples * 2) @ wav_payload two_samples =
     [0x52, 0x49, 0x46, 0x46, 0x28, 0, 0, 0, 0x57, 0x41, 0x56, 0x45,
      0x66, 0x6D, 0x74, 0x20, 0x10, 0, 0, 0, 0x01, 0, 0x01, 0,
      0xC0, 0x5D, 0, 0, 0x80, 0xBB, 0, 0, 0x02, 0, 0x10, 0,
      0x64, 0x61, 0x74, 0x61, 0x04, 0, 0, 0,
      0x00, 0xC0, 0xFF, 0x7F]"
proof -
  have u: "[0..<2] = [0, Suc 0]" by (simp add: upt_rec)
  show ?thesis
    by (simp add: wav_header_def ascii_def u32le_def u16le_def wav_payload_def frame_bytes_def
        two_samples_def numberOfChannels_def i16le_def quantize_def clamp_sample_def
        js_trunc_def u)
qed

theorem wav_container_witness:
  "well_formed two_samples
   \<and> audioBufferToWav two_samples =
       Inr \<lparr>blob_parts =
              [0x52, 0x49, 0x46, 0x46, 0x28, 0, 0, 0, 0x57, 0x41, 0x56, 0x45,
               0x66, 0x6D, 0x74, 0x20, 0x10, 0, 0, 0, 0x01, 0, 0x01, 0,
               0xC0, 0x5D, 0, 0, 0x80, 0xBB, 0, 0, 0x02, 0, 0x10, 0,
               0x64, 0x61, 0x74, 0x61, 0x04, 0, 0, 0,
               0x00, 0xC0, 0xFF, 0x7F],
            blob_type = ''audio/wav''\<rparr>"
proof -
  have wf: "well_formed two_samples"
    by (simp add: well_formed_def two_samples_def numberOfChannels_def)
  have "audioBufferToWav two_samples =
        Inr \<lparr>blob_parts = wav_header (numberOfChannels two_samples) (sampleRate two_samples)
                             (buf_length two_samples * numberOfChannels two_samples * 2) @
                           wav_payload two_samples,
             blob_type = ''audio/wav''\<rparr>"
    using wf by (rule wav_container [where b = two_samples, THEN conjunct1, THEN mp])
  then show ?thesis using wf by (simp only: bytes_two_samples simp_thms)
qed

text \<open>
  C9. For every well-formed buffer the bytes of the blob that \<open>audioBufferToMp3\<close>
  returns are the bytes of the blob that \<open>audioBufferToWav\<close> returns; the two blobs
  differ in their media type only.
\<close>
theorem mp3_bytes_are_wav_bytes:
  assumes "well_formed b"
  shows "\<exists>bytes. audioBufferToMp3 b = Inr \<lparr>blob_parts = bytes, blob_type = ''audio/mpeg''\<rparr>
               \<and> audioBufferToWav b = Inr \<lparr>blob_parts = bytes, blob_type = ''audio/wav''\<rparr>"
  using audioBufferToMp3_closed [OF assms] audioBufferToWav_closed [OF assms] by simp

theorem mp3_bytes_are_wav_bytes_witness:
  "well_formed two_samples
   \<and> (\<exists>bytes. audioBufferToMp3 two_samples = Inr \<lparr>blob_parts = bytes, blob_type = ''audio/mpeg''\<rparr>
             \<and> audioBufferToWav two_samples = Inr \<lparr>blob_parts = bytes, blob_type = ''audio/wav''\<rparr>)"
proof -
  have wf: "well_formed two_samples"
    by (simp add: well_formed_def two_samples_def numberOfChannels_def)
  show ?thesis using wf mp3_bytes_are_wav_bytes [OF wf] by (intro conjI) assumption+
qed

section \<open>Properties of the playback transport\<close>


lemma stopPlayback_fields [simp]:
  "lastVolume (stopPlayback t s) = lastVolume s"
  "volume (stopPlayback t s) = volume s"
  "playbackRate (stopPlayback t s) = playbackRate s"
  "startOffsetRef (stopPlayback t s) = startOffsetRef s"
  "playbackStartTimeRef (stopPlayback t s) = playbackStartTimeRef s"
  "audioBuffer (stopPlayback t s) = audioBuffer s"
  "audioContextRef (stopPlayback t s) = audioContextRef s"
  "gainNodeRef (stopPlayback t s) = gainNodeRef s"
  "currentTime (stopPlayback t s) = currentTime s"
  "isPlaying (stopPlayback t s) = False"
  by (simp_all add: stopPlayback_def Let_def split: option.splits)

lemma stopPlayback_main_source [simp]: "audioSourceRef (stopPlayback (Some main) s) = None"
  by (simp add: stopPlayback_def Let_def split: option.splits)

lemma play_closure_ready:
  assumes "audioContextRef s \<noteq> None" and "gainNodeRef s \<noteq> None"
  shows "play_closure (Some buf) r now s =
    (stopPlayback (Some main) s)
      \<lparr>audioSourceRef := Some \<lparr>start_offset = (if startOffsetRef s \<ge> duration buf then 0
                                               else startOffsetRef s),
                                playbackRate_value = r,
                                onended = Some \<lparr>captured_rate = r,
                                                 captured_duration = duration buf\<rparr>\<rparr>,
        playbackStartTimeRef := now, isPlaying := True, animationFrameRef := True\<rparr>"
  using assms by (auto simp add: play_closure_def Let_def)

lemma play_closure_lastVolume [simp]: "lastVolume (play_closure b r now s) = lastVolume s"
  by (simp add: play_closure_def Let_def split: option.splits)

lemma setupAudioContext_lastVolume [simp]: "lastVolume (setupAudioContext s) = lastVolume s"
  by (simp add: setupAudioContext_def split: option.splits)

lemma volume_effect_volumes [simp]:
  "lastVolume (volume_effect s) = lastVolume s" "volume (volume_effect s) = volume s"
  by (simp_all add: volume_effect_def)

lemma dispatch_lastVolume: "0 < lastVolume s \<Longrightarrow> 0 < lastVolume (dispatch e s)"
proof (cases e)
  case (TogglePlayPause now)
  assume "0 < lastVolume s"
  then show ?thesis
    by (simp add: TogglePlayPause handleTogglePlayPause_def pause_def play_def Let_def)
next
  case (SourceEnded now)
  assume "0 < lastVolume s"
  then show ?thesis
    by (simp add: SourceEnded source_onended_def Let_def split: option.splits)
next
  case ToggleMute
  assume "0 < lastVolume s"
  then show ?thesis by (simp add: ToggleMute handleToggleMute_def)
next
  case (VolumeChange v)
  assume "0 < lastVolume s"
  then show ?thesis by (simp add: VolumeChange handleVolumeChange_def)
next
  case (SpeedChange r)
  assume "0 < lastVolume s"
  then show ?thesis by (simp add: SpeedChange handleSpeedChange_def Let_def split: option.splits)
next
  case (Seek t now)
  assume "0 < lastVolume s"
  then show ?thesis by (simp add: Seek handleSeek_def play_def Let_def)
next
  case (ProgressFrame p r now)
  assume "0 < lastVolume s"
  then show ?thesis by (simp add: ProgressFrame updateProgress_def Let_def)
next
  case InputChange
  assume "0 < lastVolume s"
  then show ?thesis by (simp add: InputChange input_effect_def)
next
  case (GenerateAudio b now)
  assume "0 < lastVolume s"
  then show ?thesis by (simp add: GenerateAudio handleGenerateAudio_def Let_def)
next
  case PreviewVoice
  assume "0 < lastVolume s"
  then show ?thesis by (simp add: PreviewVoice handlePreviewVoice_def Let_def)
qed

lemma reachable_lastVolume: "reachable s \<Longrightarrow> 0 < lastVolume s"
proof (induction rule: reachable.induct)
  case reachable_initial
  show ?case by (simp add: initial_def)
next
  case (reachable_dispatch s e)
  then show ?case by (simp add: dispatch_lastVolume)
qed

section \<open>The claims about the playback transport\<close>

text \<open>
  C10. In every state that the component can reach, the stored pre-mute volume
  \<open>lastVolume\<close> is strictly positive. Hence toggling mute at volume 0 sets the volume to
  \<open>lastVolume\<close>, which is positive; toggling mute at a positive volume stores that volume
  and sets the volume to 0; and the volume slider stores a new value only when it is
  positive.
\<close>
theorem unmute_restores_positive_volume:
  assumes "reachable s"
  shows "0 < lastVolume s
       \<and> (volume s = 0 \<longrightarrow>
            volume (handleToggleMute s) = lastVolume s \<and> 0 < volume (handleToggleMute s))
       \<and> (0 < volume s \<longrightarrow>
            lastVolume (handleToggleMute s) = volume s \<and> volume (handleToggleMute s) = 0)
       \<and> lastVolume (handleVolumeChange v s) = (if 0 < v then v else lastVolume s)"
  using reachable_lastVolume [OF assms]
  by (simp add: handleToggleMute_def handleVolumeChange_def)

theorem unmute_restores_positive_volume_witness:
  "reachable (dispatch (VolumeChange (1 / 2)) initial)
   \<and> 0 < volume (dispatch (VolumeChange (1 / 2)) initial)
   \<and> lastVolume (handleToggleMute (dispatch (VolumeChange (1 / 2)) initial)) = 1 / 2
   \<and> volume (handleToggleMute (dispatch (VolumeChange (1 / 2)) initial)) = 0
   \<and> reachable (dispatch ToggleMute (dispatch (VolumeChange (1 / 2)) initial))
   \<and> volume (dispatch ToggleMute (dispatch (VolumeChange (1 / 2)) initial)) = 0
   \<and> lastVolume (dispatch ToggleMute (dispatch (VolumeChange (1 / 2)) initial)) = 1 / 2
   \<and> volume (handleToggleMute (dispatch ToggleMute (dispatch (VolumeChange (1 / 2)) initial)))
       = 1 / 2"
proof -
  let ?a = "dispatch (VolumeChange (1 / 2)) initial"
  let ?s = "dispatch ToggleMute ?a"
  have ra: "reachable ?a"
    by (intro reachable_dispatch reachable_initial)
  have r: "reachable ?s"
    by (intro reachable_dispatch reachable_initial)
  have va: "volume ?a = 1 / 2"
    by (simp add: handleVolumeChange_def initial_def)
  have v: "volume ?s = 0" "lastVolume ?s = 1 / 2"
    by (simp_all add: handleToggleMute_def handleVolumeChange_def initial_def)
  show ?thesis
    using ra r va v unmute_restores_positive_volume [OF ra, of 0]
      unmute_restores_positive_volume [OF r, of 0]
    by simp
qed

lemma play_ready:
  assumes "audioBuffer s = Some buf" and "audioContextRef s \<noteq> None" and "gainNodeRef s \<noteq> None"
  shows "play now s =
    (stopPlayback (Some main) s)
      \<lparr>audioSourceRef := Some \<lparr>start_offset = (if startOffsetRef s \<ge> duration buf then 0
                                               else startOffsetRef s),
                                playbackRate_value = playbackRate s,
                                onended = Some \<lparr>captured_rate = playbackRate s,
                                                 captured_duration = duration buf\<rparr>\<rparr>,
        playbackStartTimeRef := now, isPlaying := True, animationFrameRef := True\<rparr>"
  using assms by (simp add: play_def play_closure_ready)

lemma duration_ten_seconds [simp]: "duration ten_seconds = 10"
  by (simp add: duration_def ten_seconds_def)

lemma ready_player_fields [simp]:
  "audioBuffer ready_player = Some ten_seconds"
  "audioContextRef ready_player = Some browser_context"
  "gainNodeRef ready_player = Some 1"
  "startOffsetRef ready_player = 0"
  "playbackRate ready_player = 1"
  "isPlaying ready_player = False"
  "currentTime ready_player = 0"
  by (simp_all add: ready_player_def initial_def)

text \<open>
  C7. With a buffer, a context and a gain node present, \<open>play\<close> starts the new source at
  offset 0 when \<open>startOffsetRef\<close> is at or past the duration of the buffer, and exactly at
  \<open>startOffsetRef\<close> when it is below. In particular a seek to \<open>t\<close> followed by \<open>play\<close>
  (or the seek alone, which restarts playback, when the player is playing) starts the
  source at 0 if \<open>t\<close> is at or past the duration and at \<open>t\<close> otherwise.
\<close>
theorem play_start_offset:
  assumes "audioBuffer s = Some buf" and "audioContextRef s \<noteq> None" and "gainNodeRef s \<noteq> None"
  shows "map_option start_offset (audioSourceRef (play now s)) =
           Some (if startOffsetRef s \<ge> duration buf then 0 else startOffsetRef s)
       \<and> (\<not> isPlaying s \<longrightarrow>
            map_option start_offset (audioSourceRef (play now (handleSeek t now' s))) =
              Some (if t \<ge> duration buf then 0 else t))
       \<and> (isPlaying s \<longrightarrow>
            map_option start_offset (audioSourceRef (handleSeek t now s)) =
              Some (if t \<ge> duration buf then 0 else t))"
proof (intro conjI impI)
  show "map_option start_offset (audioSourceRef (play now s)) =
           Some (if startOffsetRef s \<ge> duration buf then 0 else startOffsetRef s)"
    by (simp add: play_ready [OF assms])
next
  let ?s1 = "s\<lparr>currentTime := t, startOffsetRef := t\<rparr>"
  have p: "map_option start_offset (audioSourceRef (play n ?s1)) =
           Some (if t \<ge> duration buf then 0 else t)" for n
    using assms by (subst play_ready [of ?s1 buf]) simp_all
  {
    assume "\<not> isPlaying s"
    then show "map_option start_offset (audioSourceRef (play now (handleSeek t now' s))) =
              Some (if t \<ge> duration buf then 0 else t)"
      using p [of now] by (simp add: handleSeek_def Let_def)
  next
    assume "isPlaying s"
    then show "map_option start_offset (audioSourceRef (handleSeek t now s)) =
              Some (if t \<ge> duration buf then 0 else t)"
      using p [of now] by (simp add: handleSeek_def Let_def)
  }
qed

theorem play_start_offset_witness:
  "audioBuffer ready_player = Some ten_seconds \<and> audioContextRef ready_player \<noteq> None
   \<and> gainNodeRef ready_player \<noteq> None \<and> \<not> isPlaying ready_player
   \<and> duration ten_seconds = 10
   \<and> map_option start_offset (audioSourceRef (play 1 (handleSeek 10 0 ready_player))) = Some 0
   \<and> map_option start_offset (audioSourceRef (play 1 (handleSeek 4 0 ready_player))) = Some 4
   \<and> isPlaying (play 1 ready_player)
   \<and> map_option start_offset (audioSourceRef (handleSeek 10 2 (play 1 ready_player))) = Some 0"
proof -
  have h: "audioBuffer ready_player = Some ten_seconds" "audioContextRef ready_player \<noteq> None"
    "gainNodeRef ready_player \<noteq> None"
    by simp_all
  have p: "play 1 ready_player =
    (stopPlayback (Some main) ready_player)
      \<lparr>audioSourceRef := Some \<lparr>start_offset = 0, playbackRate_value = 1,
                                onended = Some \<lparr>captured_rate = 1, captured_duration = 10\<rparr>\<rparr>,
        playbackStartTimeRef := 1, isPlaying := True, animationFrameRef := True\<rparr>"
    by (simp add: play_ready [OF h])
  have h': "audioBuffer (play 1 ready_player) = Some ten_seconds"
    "audioContextRef (play 1 ready_player) \<noteq> None" "gainNodeRef (play 1 ready_player) \<noteq> None"
    "isPlaying (play 1 ready_player)"
    by (simp_all add: p)
  show ?thesis
    using h h' play_start_offset [OF h, of 1 10 0] play_start_offset [OF h, of 1 4 0]
      play_start_offset [OF h'(1-3), of 2 10]
    by simp
qed

text \<open>
  What \<open>pause\<close> stores after \<open>play\<close>: with \<open>play\<close> called at clock time \<open>t0\<close> and \<open>pause\<close>
  at \<open>t0 + \<Delta>\<close>, and no other event in between, \<open>startOffsetRef\<close> advances by \<open>\<Delta>\<close> times
  the playback rate, from the value it had when \<open>play\<close> was called. That value is the
  offset at which the source was started only when it lies below the duration.
\<close>

lemma pause_folds_elapsed:
  assumes "audioBuffer s = Some buf" and "audioContextRef s \<noteq> None" and "gainNodeRef s \<noteq> None"
  shows "pause (t0 + \<Delta>) (play t0 s) =
           stopPlayback (Some main)
             ((play t0 s)\<lparr>startOffsetRef := startOffsetRef s + \<Delta> * playbackRate s\<rparr>)"
    and "startOffsetRef (pause (t0 + \<Delta>) (play t0 s)) = startOffsetRef s + \<Delta> * playbackRate s"
    and "map_option start_offset (audioSourceRef (play t0 s)) =
           Some (if startOffsetRef s \<ge> duration buf then 0 else startOffsetRef s)"
proof -
  let ?p = "play t0 s"
  have p: "audioContextRef ?p \<noteq> None" "audioSourceRef ?p \<noteq> None" "playbackStartTimeRef ?p = t0"
    "playbackRate ?p = playbackRate s" "startOffsetRef ?p = startOffsetRef s"
    using assms by (simp_all add: play_ready [OF assms])
  show q: "pause (t0 + \<Delta>) ?p =
           stopPlayback (Some main) (?p\<lparr>startOffsetRef := startOffsetRef s + \<Delta> * playbackRate s\<rparr>)"
    using p by (auto simp add: pause_def Let_def)
  show "startOffsetRef (pause (t0 + \<Delta>) ?p) = startOffsetRef s + \<Delta> * playbackRate s"
    unfolding q by simp
  show "map_option start_offset (audioSourceRef ?p) =
           Some (if startOffsetRef s \<ge> duration buf then 0 else startOffsetRef s)"
    by (simp add: play_ready [OF assms])
qed

text \<open>
  C6 at a concrete trace: the seek slider of a paused player with a ten-second buffer
  is moved to its end, 10, and \<open>play\<close> is called at clock time 0 at rate 1. \<open>play\<close>
  starts the source at offset 0 and leaves \<open>startOffsetRef\<close> at 10. The segment begins at
  \<open>o = 0\<close>, so after \<open>\<Delta> = 3\<close> the claim has \<open>pause\<close> store \<open>0 + 3 * 1 = 3\<close> and the next
  \<open>play\<close> resume there. \<open>pause\<close> at clock time 3 stores \<open>10 + 3 * 1 = 13\<close>, and the next
  \<open>play\<close> starts its source at offset 0 again.
\<close>

theorem pause_after_restart_keeps_stale_offset:
  "\<not> isPlaying ready_player
   \<and> startOffsetRef (handleSeek 10 0 ready_player) = duration ten_seconds
   \<and> playbackRate (handleSeek 10 0 ready_player) = 1
   \<and> map_option start_offset (audioSourceRef (play 0 (handleSeek 10 0 ready_player))) = Some 0
   \<and> startOffsetRef (play 0 (handleSeek 10 0 ready_player)) = 10
   \<and> startOffsetRef (pause 3 (play 0 (handleSeek 10 0 ready_player))) = 13
   \<and> map_option start_offset
        (audioSourceRef (play 4 (pause 3 (play 0 (handleSeek 10 0 ready_player))))) = Some 0"
proof -
  let ?s = "handleSeek 10 0 ready_player"
  have s: "?s = ready_player\<lparr>currentTime := 10, startOffsetRef := 10\<rparr>"
    by (simp add: handleSeek_def Let_def)
  have h: "audioBuffer ?s = Some ten_seconds" "audioContextRef ?s \<noteq> None"
    "gainNodeRef ?s \<noteq> None"
    by (simp_all add: s)
  have v: "startOffsetRef ?s = 10" "playbackRate ?s = 1" by (simp_all add: s)
  have start: "map_option start_offset (audioSourceRef (play 0 ?s)) = Some 0"
    using pause_folds_elapsed(3) [OF h, of 0] by (simp add: v)
  have kept: "startOffsetRef (play 0 ?s) = 10"
    by (simp add: play_ready [OF h] v)
  have q: "pause 3 (play 0 ?s) =
      stopPlayback (Some main) ((play 0 ?s)\<lparr>startOffsetRef := 13\<rparr>)"
    using pause_folds_elapsed(1) [OF h, of 0 3] by (simp add: v)
  have stored: "startOffsetRef (pause 3 (play 0 ?s)) = 13"
    unfolding q by simp
  have ready: "audioBuffer (pause 3 (play 0 ?s)) = Some ten_seconds"
    "audioContextRef (pause 3 (play 0 ?s)) \<noteq> None" "gainNodeRef (pause 3 (play 0 ?s)) \<noteq> None"
    unfolding q using h by (simp_all add: play_ready [OF h])
  have again: "map_option start_offset (audioSourceRef (play 4 (pause 3 (play 0 ?s)))) = Some 0"
    using pause_folds_elapsed(3) [OF ready, of 4] by (simp add: stored)
  show ?thesis
    using start kept stored again by (simp add: v)
qed

text \<open>
  C2 at a concrete trace: a ten-second buffer is played from offset 0 at rate 1, the rate
  is set to 2 at clock time 2, and playback is paused at clock time 3. The source node
  ran at rate 1 for two seconds and at rate 2 for one second, which is the position
  \<open>0 + 2 * 1 + 1 * 2 = 4\<close> of the claim. \<open>handleSpeedChange\<close> leaves \<open>startOffsetRef\<close>
  and \<open>playbackStartTimeRef\<close> as they are, and \<open>pause\<close> multiplies the whole elapsed
  time by the rate in force when it is called: it stores \<open>(3 - 0) * 2 = 6\<close>.
\<close>
theorem speed_change_rescales_segment:
  "map_option playbackRate_value (audioSourceRef (play 0 ready_player)) = Some 1
   \<and> map_option playbackRate_value
        (audioSourceRef (handleSpeedChange 2 (play 0 ready_player))) = Some 2
   \<and> startOffsetRef (pause 3 (handleSpeedChange 2 (play 0 ready_player))) = 6
   \<and> startOffsetRef ready_player + (2 - 0) * 1 + (3 - 2) * 2 = (4 :: real)"
proof -
  have h: "audioBuffer ready_player = Some ten_seconds" "audioContextRef ready_player \<noteq> None"
    "gainNodeRef ready_player \<noteq> None"
    by simp_all
  have p: "play 0 ready_player =
    (stopPlayback (Some main) ready_player)
      \<lparr>audioSourceRef := Some \<lparr>start_offset = 0, playbackRate_value = 1,
                                onended = Some \<lparr>captured_rate = 1, captured_duration = 10\<rparr>\<rparr>,
        playbackStartTimeRef := 0, isPlaying := True, animationFrameRef := True\<rparr>"
    by (simp add: play_ready [OF h])
  show ?thesis
    by (simp add: p handleSpeedChange_def pause_def Let_def)
qed

text \<open>
  C8, as stated, fails: a ten-second buffer is played from offset 0 at rate 1 and the
  end of the source is handled at clock time 10.05. The offset computed is 10.05, which
  is not within 0.01 of the duration 10, yet it is not retained: \<open>startOffsetRef\<close> is
  reset to 0 and the displayed position is set to the duration.
\<close>
theorem ended_past_the_end_counterexample:
  "startOffsetRef (play 0 ready_player)
     + (201 / 20 - playbackStartTimeRef (play 0 ready_player)) * playbackRate ready_player
     = 201 / 20
   \<and> \<not> \<bar>201 / 20 - duration ten_seconds\<bar> \<le> 1 / 100
   \<and> startOffsetRef (source_onended (201 / 20) (play 0 ready_player)) = 0
   \<and> currentTime (source_onended (201 / 20) (play 0 ready_player)) = duration ten_seconds"
proof -
  have h: "audioBuffer ready_player = Some ten_seconds" "audioContextRef ready_player \<noteq> None"
    "gainNodeRef ready_player \<noteq> None"
    by simp_all
  have p: "play 0 ready_player =
    (stopPlayback (Some main) ready_player)
      \<lparr>audioSourceRef := Some \<lparr>start_offset = 0, playbackRate_value = 1,
                                onended = Some \<lparr>captured_rate = 1, captured_duration = 10\<rparr>\<rparr>,
        playbackStartTimeRef := 0, isPlaying := True, animationFrameRef := True\<rparr>"
    by (simp add: play_ready [OF h])
  show ?thesis
    by (simp add: p source_onended_def Let_def)
qed

text \<open>
  C8, amended. When the current source signals its end (and the context exists), the
  handler computes the offset \<open>startOffsetRef + (now - playbackStartTimeRef) * rate\<close>, with
  the rate and the buffer with which \<open>play\<close> started the source. If that offset is at
  least the duration minus 0.01, it resets \<open>startOffsetRef\<close> to 0 and sets the displayed
  position to the duration; otherwise it stores the computed offset and leaves the
  displayed position. In both cases \<open>isPlaying\<close> becomes false.
\<close>

theorem source_ended:
  assumes "audioSourceRef s = Some src" and "onended src = Some cl"
    and "audioContextRef s \<noteq> None"
  shows "\<not> isPlaying (source_onended now s)
       \<and> (captured_duration cl - 1 / 100
            \<le> startOffsetRef s + (now - playbackStartTimeRef s) * captured_rate cl \<longrightarrow>
            startOffsetRef (source_onended now s) = 0
          \<and> currentTime (source_onended now s) = captured_duration cl)
       \<and> (startOffsetRef s + (now - playbackStartTimeRef s) * captured_rate cl
            < captured_duration cl - 1 / 100 \<longrightarrow>
            startOffsetRef (source_onended now s) =
              startOffsetRef s + (now - playbackStartTimeRef s) * captured_rate cl
          \<and> currentTime (source_onended now s) = currentTime s)"
  using assms by (auto simp add: source_onended_def Let_def)

theorem source_ended_witness:
  "audioSourceRef (play 0 ready_player) =
     Some \<lparr>start_offset = 0, playbackRate_value = 1,
           onended = Some \<lparr>captured_rate = 1, captured_duration = duration ten_seconds\<rparr>\<rparr>
   \<and> audioContextRef (play 0 ready_player) \<noteq> None
   \<and> duration ten_seconds - 1 / 100 \<le> 0 + (10 - 0) * 1
   \<and> \<not> isPlaying (source_onended 10 (play 0 ready_player))
   \<and> startOffsetRef (source_onended 10 (play 0 ready_player)) = 0
   \<and> currentTime (source_onended 10 (play 0 ready_player)) = duration ten_seconds
   \<and> 0 + (7 - 0) * 1 < duration ten_seconds - 1 / 100
   \<and> startOffsetRef (source_onended 7 (play 0 ready_player)) = 7
   \<and> currentTime (source_onended 7 (play 0 ready_player)) = 0"
proof -
  have h: "audioBuffer ready_player = Some ten_seconds" "audioContextRef ready_player \<noteq> None"
    "gainNodeRef ready_player \<noteq> None"
    by simp_all
  have p: "play 0 ready_player =
    (stopPlayback (Some main) ready_player)
      \<lparr>audioSourceRef := Some \<lparr>start_offset = 0, playbackRate_value = 1,
                                onended = Some \<lparr>captured_rate = 1, captured_duration = 10\<rparr>\<rparr>,
        playbackStartTimeRef := 0, isPlaying := True, animationFrameRef := True\<rparr>"
    by (simp add: play_ready [OF h])
  have a: "audioSourceRef (play 0 ready_player) =
     Some \<lparr>start_offset = 0, playbackRate_value = 1,
           onended = Some \<lparr>captured_rate = 1, captured_duration = 10\<rparr>\<rparr>"
    "onended \<lparr>start_offset = 0, playbackRate_value = 1,
           onended = Some \<lparr>captured_rate = 1, captured_duration = 10\<rparr>\<rparr> =
       Some \<lparr>captured_rate = 1, captured_duration = 10\<rparr>"
    "audioContextRef (play 0 ready_player) \<noteq> None"
    by (simp_all add: p)
  have f: "startOffsetRef (play 0 ready_player) = 0" "playbackStartTimeRef (play 0 ready_player) = 0"
    "currentTime (play 0 ready_player) = 0"
    by (simp_all add: p)
  show ?thesis
    using a source_ended [OF a, of 10] source_ended [OF a, of 7] by (simp add: f)
qed

end
